theory Spec2Isabelle
  imports Main
begin

section \<open>The VirtualBox backend of charon: data model\<close>

text \<open>
  This theory embeds \<^verbatim>\<open>charon/backends/virtualbox.py\<close>. The class
  \<^verbatim>\<open>VirtualBoxState\<close> keeps seven fields; the optional ones hold a Python
  \<^verbatim>\<open>str\<close> or \<^verbatim>\<open>None\<close>. Every guard of the source tests a field by
  truthiness (\<^verbatim>\<open>if not self._vm_id\<close>, \<^verbatim>\<open>if self._disk\<close>), which is false
  for \<^verbatim>\<open>None\<close> and for the empty string.
\<close>

type_synonym pystr = "string option"

definition truthy :: "pystr \<Rightarrow> bool" where
  "truthy v = (case v of None \<Rightarrow> False | Some s \<Rightarrow> s \<noteq> [])"

definition lit :: "string list \<Rightarrow> pystr list" where
  "lit xs = map Some xs"

text \<open>
  The exceptions of the source. \<open>Exception msg\<close> is \<^verbatim>\<open>raise Exception(...)\<close>,
  with the text of the message up to the name of the machine. The others are
  raised by Python itself: \<open>TypeError\<close> for \<^verbatim>\<open>None\<close> where a string is
  needed, \<open>KeyError\<close> for a missing environment variable, \<open>ValueError\<close> for a
  failed unpacking, \<open>AttributeError\<close> for a method of \<^verbatim>\<open>None\<close>,
  \<open>CalledProcessError\<close> from \<^verbatim>\<open>check_output\<close>. \<open>Unrepresentable\<close> is not a
  Python exception; it is explained with \<open>get_str\<close> below.
\<close>

datatype exn =
    Exception string
  | TypeError
  | KeyError
  | ValueError
  | AttributeError
  | CalledProcessError
  | Unrepresentable

record VirtualBoxDefinition =
  base_image :: string
  memory_size :: string
  headless :: bool

record VirtualBoxState =
  vm_id :: pystr
  ipv4 :: pystr
  disk :: pystr
  disk_attached :: bool
  started :: bool
  client_private_key :: pystr
  client_public_key :: pystr

text \<open>\<^verbatim>\<open>__init__\<close> (lines 39-47): a fresh record has every field unset.\<close>

definition init_state :: VirtualBoxState where
  "init_state =
     \<lparr>vm_id = None, ipv4 = None, disk = None, disk_attached = False, started = False,
      client_private_key = None, client_public_key = None\<rparr>"

text \<open>
  What the methods read from the base class and the deployment: \<^verbatim>\<open>self.name\<close>,
  \<^verbatim>\<open>self.depl.uuid\<close>, \<^verbatim>\<open>self.depl.tempdir\<close>, \<^verbatim>\<open>self.depl.expr_path\<close>,
  \<^verbatim>\<open>self.depl.nix_exprs\<close> and \<^verbatim>\<open>os.environ['HOME']\<close> (a \<^verbatim>\<open>KeyError\<close> when
  the variable is missing).
\<close>

record machine =
  name :: string
  uuid :: string
  tempdir :: string
  expr_path :: string
  nix_exprs :: "string list"
  home :: pystr

section \<open>Persisted form\<close>

datatype jvalue =
    JNull
  | JStr string
  | JBool bool
  | JObj "string \<Rightarrow> jvalue option"

type_synonym jdict = "string \<Rightarrow> jvalue option"

text \<open>\<^verbatim>\<open>if self._f: x[k] = self._f\<close>\<close>

definition put_if :: "string \<Rightarrow> pystr \<Rightarrow> jdict \<Rightarrow> jdict" where
  "put_if k v x = (case v of None \<Rightarrow> x | Some s \<Rightarrow> if s \<noteq> [] then x(k \<mapsto> JStr s) else x)"

text \<open>
  \<^verbatim>\<open>serialise\<close> (lines 49-62). The parameter \<open>base\<close> is the mapping returned by
  \<^verbatim>\<open>MachineState.serialise(self)\<close>, whose code is in the base class.
\<close>

definition serialise :: "jdict \<Rightarrow> VirtualBoxState \<Rightarrow> jdict" where
  "serialise base s =
     (let x = put_if ''privateIpv4'' (ipv4 s) (put_if ''vmId'' (vm_id s) base);
          y = put_if ''clientPublicKey'' (client_public_key s)
                (put_if ''clientPrivateKey'' (client_private_key s)
                  (put_if ''disk'' (disk s) Map.empty));
          y = y(''diskAttached'' \<mapsto> JBool (disk_attached s));
          y = y(''started'' \<mapsto> JBool (started s))
      in x(''virtualbox'' \<mapsto> JObj y))"

text \<open>
  \<^verbatim>\<open>x.get(k, None)\<close> for a field that holds a string, and \<^verbatim>\<open>y.get(k, False)\<close>
  for a boolean field. Python stores whatever value the mapping holds; a value of
  another type than the field's has no place in the typed record, and the model
  marks that case with \<open>Unrepresentable\<close> instead of guessing.
\<close>

definition get_str :: "jdict \<Rightarrow> string \<Rightarrow> exn + pystr" where
  "get_str x k =
     (case x k of
        None \<Rightarrow> Inr None
      | Some JNull \<Rightarrow> Inr None
      | Some (JStr s) \<Rightarrow> Inr (Some s)
      | Some _ \<Rightarrow> Inl Unrepresentable)"

definition get_bool :: "jdict \<Rightarrow> string \<Rightarrow> exn + bool" where
  "get_bool y k =
     (case y k of
        None \<Rightarrow> Inr False
      | Some (JBool b) \<Rightarrow> Inr b
      | Some _ \<Rightarrow> Inl Unrepresentable)"

text \<open>
  \<^verbatim>\<open>deserialise\<close> (lines 64-74). \<^verbatim>\<open>y = x.get('virtualbox')\<close> is \<^verbatim>\<open>None\<close>
  when the key is missing, and \<^verbatim>\<open>y.get\<close> then raises \<^verbatim>\<open>AttributeError\<close>
  (as it does on a string or a boolean).
\<close>

definition deserialise :: "jdict \<Rightarrow> exn + VirtualBoxState" where
  "deserialise x =
     (case get_str x ''vmId'' of Inl e \<Rightarrow> Inl e | Inr v_vm_id \<Rightarrow>
      case get_str x ''privateIpv4'' of Inl e \<Rightarrow> Inl e | Inr v_ipv4 \<Rightarrow>
      case x ''virtualbox'' of
        Some (JObj y) \<Rightarrow>
          (case get_str y ''disk'' of Inl e \<Rightarrow> Inl e | Inr v_disk \<Rightarrow>
           case get_bool y ''diskAttached'' of Inl e \<Rightarrow> Inl e | Inr v_att \<Rightarrow>
           case get_str y ''clientPrivateKey'' of Inl e \<Rightarrow> Inl e | Inr v_priv \<Rightarrow>
           case get_str y ''clientPublicKey'' of Inl e \<Rightarrow> Inl e | Inr v_pub \<Rightarrow>
           case get_bool y ''started'' of Inl e \<Rightarrow> Inl e | Inr v_started \<Rightarrow>
             Inr \<lparr>vm_id = v_vm_id, ipv4 = v_ipv4, disk = v_disk, disk_attached = v_att,
                  started = v_started, client_private_key = v_priv,
                  client_public_key = v_pub\<rparr>)
      | _ \<Rightarrow> Inl AttributeError)"

section \<open>The world outside the process\<close>

text \<open>
  Every interaction with the outside is recorded, with the reply it got, in a trace:
  \<^verbatim>\<open>subprocess.call\<close> (argv, exit status), \<^verbatim>\<open>subprocess.check_output\<close> (argv,
  exit status, stdout), \<^verbatim>\<open>subprocess.Popen(...).communicate()\<close> (argv, the lines
  of stdout), \<^verbatim>\<open>os.path.isdir\<close>, the key generator, \<^verbatim>\<open>charon.known_hosts.remove\<close>,
  \<^verbatim>\<open>time.sleep\<close>, \<^verbatim>\<open>self.log\<close>, \<^verbatim>\<open>self.warn\<close> and \<^verbatim>\<open>self.write\<close>.
  Progress output on \<^verbatim>\<open>sys.stderr\<close> is not recorded.
\<close>

datatype event =
    Call "string list" int
  | CheckOutput "string list" int string
  | Popen "string list" "string list"
  | IsDir string bool
  | CreateKeyPair string string
  | KnownHostsRemove string
  | Sleep nat
  | Log string
  | Warn string
  | Write VirtualBoxState

fun is_Call :: "event \<Rightarrow> bool" where
  "is_Call (Call a st) = True"
| "is_Call e = False"

fun is_CheckOutput :: "event \<Rightarrow> bool" where
  "is_CheckOutput (CheckOutput a st out) = True"
| "is_CheckOutput e = False"

fun is_Popen :: "event \<Rightarrow> bool" where
  "is_Popen (Popen a ls) = True"
| "is_Popen e = False"

fun is_IsDir :: "event \<Rightarrow> bool" where
  "is_IsDir (IsDir p b) = True"
| "is_IsDir e = False"

fun is_CreateKeyPair :: "event \<Rightarrow> bool" where
  "is_CreateKeyPair (CreateKeyPair a b) = True"
| "is_CreateKeyPair e = False"

definition count :: "(event \<Rightarrow> bool) \<Rightarrow> event list \<Rightarrow> nat" where
  "count P h = length (filter P h)"

text \<open>
  The replies of the outside world. The program is deterministic, so one run is
  fixed by the sequence of replies to each kind of request: the \<open>k\<close>-th
  \<^verbatim>\<open>subprocess.call\<close> of the trace exits with \<open>call_status be k\<close>, and so on.
  The executables are taken to exist (no \<^verbatim>\<open>OSError\<close>).
\<close>

record backend =
  call_status :: "nat \<Rightarrow> int"
  check_output_reply :: "nat \<Rightarrow> int \<times> string"
  popen_lines :: "nat \<Rightarrow> string list"
  isdir_reply :: "nat \<Rightarrow> bool"
  key_pair :: "nat \<Rightarrow> string \<times> string"

text \<open>
  The in-memory object \<open>self\<close>, the trace, and the durable copy of the record
  that \<^verbatim>\<open>write()\<close> last stored.
\<close>

record conf =
  self :: VirtualBoxState
  trace :: "event list"
  store :: VirtualBoxState

datatype outcome = Returned | Raised exn | OutOfFuel

definition emit :: "event \<Rightarrow> conf \<Rightarrow> conf" where
  "emit e c = c\<lparr>trace := trace c @ [e]\<rparr>"

text \<open>
  Modelled from the spec: \<^verbatim>\<open>MachineState.write\<close>, \<^verbatim>\<open>MachineState.log\<close>,
  \<^verbatim>\<open>MachineState.warn\<close> and \<^verbatim>\<open>MachineState._create_key_pair\<close> belong to the base
  class in \<^verbatim>\<open>charon/backends/__init__.py\<close>, which is not among the sources. The
  spec has \<^verbatim>\<open>write()\<close> "persist current in-memory record to durable storage", the
  logger take a message, and the credential generator return
  \<^verbatim>\<open>(privateKey, publicKey)\<close>.
\<close>

definition write_state :: "conf \<Rightarrow> conf" where
  "write_state c = (emit (Write (self c)) c)\<lparr>store := self c\<rparr>"

definition log :: "string \<Rightarrow> conf \<Rightarrow> conf" where
  "log msg c = emit (Log msg) c"

definition warn :: "string \<Rightarrow> conf \<Rightarrow> conf" where
  "warn msg c = emit (Warn msg) c"

definition create_key_pair :: "backend \<Rightarrow> conf \<Rightarrow> (string \<times> string) \<times> conf" where
  "create_key_pair be c =
     (let (priv, pub) = key_pair be (count is_CreateKeyPair (trace c))
      in ((priv, pub), emit (CreateKeyPair priv pub) c))"

text \<open>
  \<^verbatim>\<open>subprocess.call(argv)\<close>: a \<^verbatim>\<open>None\<close> among the arguments makes Python 2 raise
  \<^verbatim>\<open>TypeError\<close> (from \<^verbatim>\<open>execvp\<close>) and no command runs.
\<close>

definition subprocess_call :: "backend \<Rightarrow> pystr list \<Rightarrow> conf \<Rightarrow> (exn + int) \<times> conf" where
  "subprocess_call be args c =
     (case those args of
        None \<Rightarrow> (Inl TypeError, c)
      | Some a \<Rightarrow>
          (let st = call_status be (count is_Call (trace c))
           in (Inr st, emit (Call a st) c)))"

text \<open>\<^verbatim>\<open>subprocess.check_output(argv)\<close> raises \<^verbatim>\<open>CalledProcessError\<close> on a nonzero exit status.\<close>

definition check_output :: "backend \<Rightarrow> pystr list \<Rightarrow> conf \<Rightarrow> (exn + string) \<times> conf" where
  "check_output be args c =
     (case those args of
        None \<Rightarrow> (Inl TypeError, c)
      | Some a \<Rightarrow>
          (let (st, out) = check_output_reply be (count is_CheckOutput (trace c));
               c1 = emit (CheckOutput a st out) c
           in if st \<noteq> 0 then (Inl CalledProcessError, c1) else (Inr out, c1)))"

definition isdir :: "backend \<Rightarrow> string \<Rightarrow> conf \<Rightarrow> bool \<times> conf" where
  "isdir be p c =
     (let b = isdir_reply be (count is_IsDir (trace c)) in (b, emit (IsDir p b) c))"

definition sleep :: "nat \<Rightarrow> conf \<Rightarrow> conf" where
  "sleep n c = emit (Sleep n) c"

definition known_hosts_remove :: "string \<Rightarrow> conf \<Rightarrow> conf" where
  "known_hosts_remove a c = emit (KnownHostsRemove a) c"

section \<open>String helpers of Python\<close>

definition is_space :: "char \<Rightarrow> bool" where
  "is_space ch = (ch \<in> set [CHR '' '', CHR 0x09, CHR 0x0A, CHR 0x0B, CHR 0x0C, CHR 0x0D])"

definition rstrip :: "string \<Rightarrow> string" where
  "rstrip s = rev (dropWhile is_space (rev s))"

fun join :: "string \<Rightarrow> string list \<Rightarrow> string" where
  "join sep [] = []"
| "join sep [x] = x"
| "join sep (x # y # ys) = x @ sep @ join sep (y # ys)"

text \<open>\<^verbatim>\<open>(k, v) = l.split("=", 1)\<close>: a line without \<^verbatim>\<open>=\<close> gives one part, and the unpacking raises \<^verbatim>\<open>ValueError\<close>.\<close>

definition split_eq :: "string \<Rightarrow> (string \<times> string) option" where
  "split_eq l =
     (if CHR ''='' \<in> set l
      then Some (takeWhile (\<lambda>ch. ch \<noteq> CHR ''='') l, tl (dropWhile (\<lambda>ch. ch \<noteq> CHR ''='') l))
      else None)"

text \<open>The loop of \<^verbatim>\<open>_get_vm_info\<close> (lines 118-121): later lines override earlier ones.\<close>

fun parse_vm_info :: "string list \<Rightarrow> (string \<Rightarrow> string option) \<Rightarrow> exn + (string \<Rightarrow> string option)" where
  "parse_vm_info [] vminfo = Inr vminfo"
| "parse_vm_info (l # ls) vminfo =
     (case split_eq l of
        None \<Rightarrow> Inl ValueError
      | Some (k, v) \<Rightarrow> parse_vm_info ls (vminfo(k \<mapsto> v)))"

section \<open>Queries\<close>

text \<open>
  \<^verbatim>\<open>_get_vm_info\<close> (lines 106-122): the exit status of \<^verbatim>\<open>showvminfo\<close> is
  ignored; an empty output raises.
\<close>

definition get_vm_info :: "backend \<Rightarrow> conf \<Rightarrow> (exn + (string \<Rightarrow> string option)) \<times> conf" where
  "get_vm_info be c =
     (case those (lit [''VBoxManage'', ''showvminfo'', ''--machinereadable''] @ [vm_id (self c)]) of
        None \<Rightarrow> (Inl TypeError, c)
      | Some a \<Rightarrow>
          (let lines = popen_lines be (count is_Popen (trace c));
               c1 = emit (Popen a lines) c
           in if length lines = 0
              then (Inl (Exception ''unable to get info on VirtualBox VM''), c1)
              else (parse_vm_info lines Map.empty, c1)))"

text \<open>\<^verbatim>\<open>_get_vm_state\<close> (lines 125-130); \<^verbatim>\<open>replace('"', '')\<close> drops every double quote.\<close>

definition get_vm_state :: "backend \<Rightarrow> conf \<Rightarrow> (exn + string) \<times> conf" where
  "get_vm_state be c =
     (case get_vm_info be c of
        (Inl e, c1) \<Rightarrow> (Inl e, c1)
      | (Inr vminfo, c1) \<Rightarrow>
          (case vminfo ''VMState'' of
             None \<Rightarrow> (Inl (Exception ''unable to get state of VirtualBox VM''), c1)
           | Some v \<Rightarrow> (Inr (filter (\<lambda>ch. ch \<noteq> CHR 0x22) v), c1)))"

section \<open>Starting and address discovery\<close>

text \<open>\<^verbatim>\<open>_start\<close> (lines 133-146).\<close>

definition u_start :: "backend \<Rightarrow> bool \<Rightarrow> conf \<Rightarrow> outcome \<times> conf" where
  "u_start be hdless c =
     (case subprocess_call be
             (lit [''VBoxManage'', ''guestproperty'', ''set''] @ [vm_id (self c)]
              @ lit [''/VirtualBox/GuestInfo/Net/1/V4/IP'', []]) c of
        (Inl e, c1) \<Rightarrow> (Raised e, c1)
      | (Inr res, c1) \<Rightarrow>
          if res \<noteq> 0 then (Raised (Exception ''unable to clear IP address of VirtualBox VM''), c1)
          else
            (case subprocess_call be
                    (lit [''VBoxManage'', ''guestproperty'', ''set''] @ [vm_id (self c1)]
                     @ lit [''/VirtualBox/GuestInfo/Charon/ClientPublicKey'']
                     @ [client_public_key (self c1)]) c1 of
               (Inl e, c2) \<Rightarrow> (Raised e, c2)
             | (Inr res, c2) \<Rightarrow>
                 if res \<noteq> 0 then (Raised (Exception ''unable to client key of VirtualBox VM''), c2)
                 else
                   (case subprocess_call be
                           (lit [''VBoxManage'', ''startvm''] @ [vm_id (self c2)]
                            @ (if hdless then lit [''--type'', ''headless''] else [])) c2 of
                      (Inl e, c3) \<Rightarrow> (Raised e, c3)
                    | (Inr res, c3) \<Rightarrow>
                        if res \<noteq> 0 then (Raised (Exception ''unable to start VirtualBox VM''), c3)
                        else (Returned, write_state (c3\<lparr>self := (self c3)\<lparr>started := True\<rparr>\<rparr>)))))"

text \<open>
  \<^verbatim>\<open>_wait_for_ip\<close> (lines 149-166). The loop has no bound in the source; the
  first argument bounds the number of polls, and \<open>OutOfFuel\<close> stands for a loop
  that is still running.
\<close>

fun wait_for_ip :: "nat \<Rightarrow> backend \<Rightarrow> conf \<Rightarrow> outcome \<times> conf" where
  "wait_for_ip 0 be c = (OutOfFuel, c)"
| "wait_for_ip (Suc n) be c =
     (case check_output be
             (lit [''VBoxManage'', ''guestproperty'', ''get''] @ [vm_id (self c)]
              @ lit [''/VirtualBox/GuestInfo/Net/1/V4/IP'']) c of
        (Inl CalledProcessError, c1) \<Rightarrow>
          (Raised (Exception ''unable to get IP address of VirtualBox VM''), c1)
      | (Inl e, c1) \<Rightarrow> (Raised e, c1)
      | (Inr out, c1) \<Rightarrow>
          (let res = rstrip out in
           if take 7 res = ''Value: ''
           then (let c2 = c1\<lparr>self := (self c1)\<lparr>ipv4 := Some (drop 7 res)\<rparr>\<rparr>
                 in (Returned, write_state (known_hosts_remove (drop 7 res) c2)))
           else wait_for_ip n be (sleep 1 c1)))"

section \<open>create\<close>

text \<open>
  \<^verbatim>\<open>create\<close> (lines 169-248) is a sequence of seven guarded blocks. Each block
  is one function here; an exception raised in a block ends the sequence. The
  assertion on the class of \<open>defn\<close> (line 170) is the type of the argument.
\<close>

definition and_then :: "outcome \<times> conf \<Rightarrow> (conf \<Rightarrow> outcome \<times> conf) \<Rightarrow> outcome \<times> conf" where
  "and_then r f = (case r of (Returned, c) \<Rightarrow> f c | (out, c) \<Rightarrow> (out, c))"

text \<open>Lines 172-182.\<close>

definition create_vm :: "backend \<Rightarrow> machine \<Rightarrow> conf \<Rightarrow> outcome \<times> conf" where
  "create_vm be m c =
     (if \<not> truthy (vm_id (self c)) then
        (let c0 = log ''creating VirtualBox VM...'' c;
             new_id = ''charon-'' @ uuid m @ ''-'' @ name m
         in case subprocess_call be
                   (lit [''VBoxManage'', ''createvm'', ''--name'', new_id,
                         ''--ostype'', ''Linux'', ''--register'']) c0 of
              (Inl e, c1) \<Rightarrow> (Raised e, c1)
            | (Inr res, c1) \<Rightarrow>
                if res \<noteq> 0 then (Raised (Exception ''unable to create VirtualBox VM''), c1)
                else (Returned, write_state (c1\<lparr>self := (self c1)\<lparr>vm_id := Some new_id\<rparr>\<rparr>)))
      else (Returned, c))"

text \<open>
  Lines 191-201: the base image, built with \<^verbatim>\<open>nix-build\<close> when the definition
  says \<^verbatim>\<open>drv\<close>. Only \<^verbatim>\<open>CalledProcessError\<close> is caught.
\<close>

definition resolve_base_image :: "backend \<Rightarrow> machine \<Rightarrow> VirtualBoxDefinition \<Rightarrow> conf \<Rightarrow> (exn + string) \<times> conf" where
  "resolve_base_image be m defn c =
     (if base_image defn = ''drv'' then
        (case check_output be
                (lit [''nix-build'', ''-I'', ''charon='' @ expr_path m, ''--show-trace'',
                      ''<charon/eval-machine-info.nix>'',
                      ''--arg'', ''networkExprs'', ''[ '' @ join '' '' (nix_exprs m) @ '' ]'',
                      ''-A'', ''nodes.'' @ name m @ ''.config.deployment.virtualbox.baseImage'',
                      ''-o'', tempdir m @ ''/vbox-image-'' @ name m]) c of
           (Inl CalledProcessError, c1) \<Rightarrow> (Inl (Exception ''unable to build base image''), c1)
         | (Inl e, c1) \<Rightarrow> (Inl e, c1)
         | (Inr out, c1) \<Rightarrow> (Inr (rstrip out), c1))
      else (Inr (base_image defn), c))"

text \<open>Lines 184-207.\<close>

definition clone_disk :: "backend \<Rightarrow> machine \<Rightarrow> VirtualBoxDefinition \<Rightarrow> conf \<Rightarrow> outcome \<times> conf" where
  "clone_disk be m defn c =
     (if \<not> truthy (disk (self c)) then
        (case home m of
           None \<Rightarrow> (Raised KeyError, c)
         | Some h \<Rightarrow>
             (case vm_id (self c) of
                None \<Rightarrow> (Raised TypeError, c)
              | Some v \<Rightarrow>
                  (let vm_dir = h @ ''/VirtualBox VMs/'' @ v in
                   case isdir be vm_dir c of
                     (False, c1) \<Rightarrow> (Raised (Exception ''can't find directory of VirtualBox VM''), c1)
                   | (True, c1) \<Rightarrow>
                       (let dsk = vm_dir @ ''/disk1.vdi'' in
                        case resolve_base_image be m defn c1 of
                          (Inl e, c2) \<Rightarrow> (Raised e, c2)
                        | (Inr img, c2) \<Rightarrow>
                            (case subprocess_call be (lit [''VBoxManage'', ''clonehd'', img, dsk]) c2 of
                               (Inl e, c3) \<Rightarrow> (Raised e, c3)
                             | (Inr res, c3) \<Rightarrow>
                                 if res \<noteq> 0
                                 then (Raised (Exception ''unable to copy VirtualBox disk''), c3)
                                 else (Returned,
                                       write_state (c3\<lparr>self := (self c3)\<lparr>disk := Some dsk\<rparr>\<rparr>)))))))
      else (Returned, c))"

text \<open>Lines 209-223.\<close>

definition attach_disk :: "backend \<Rightarrow> conf \<Rightarrow> outcome \<times> conf" where
  "attach_disk be c =
     (if \<not> disk_attached (self c) then
        (case subprocess_call be
                (lit [''VBoxManage'', ''storagectl''] @ [vm_id (self c)]
                 @ lit [''--name'', ''SATA'', ''--add'', ''sata'', ''--sataportcount'', ''2'',
                        ''--bootable'', ''on'', ''--hostiocache'', ''on'']) c of
           (Inl e, c1) \<Rightarrow> (Raised e, c1)
         | (Inr res, c1) \<Rightarrow>
             if res \<noteq> 0
             then (Raised (Exception ''unable to create SATA controller on VirtualBox VM''), c1)
             else
               (case subprocess_call be
                       (lit [''VBoxManage'', ''storageattach''] @ [vm_id (self c1)]
                        @ lit [''--storagectl'', ''SATA'', ''--port'', ''0'', ''--device'', ''0'',
                               ''--type'', ''hdd'', ''--medium'']
                        @ [disk (self c1)]) c1 of
                  (Inl e, c2) \<Rightarrow> (Raised e, c2)
                | (Inr res, c2) \<Rightarrow>
                    if res \<noteq> 0
                    then (Raised (Exception ''unable to attach disk to VirtualBox VM''), c2)
                    else (Returned,
                          write_state (c2\<lparr>self := (self c2)\<lparr>disk_attached := True\<rparr>\<rparr>))))
      else (Returned, c))"

text \<open>Lines 225-231.\<close>

definition check_running :: "backend \<Rightarrow> bool \<Rightarrow> conf \<Rightarrow> outcome \<times> conf" where
  "check_running be check c =
     (if check then
        (case get_vm_state be c of
           (Inl e, c1) \<Rightarrow> (Raised e, c1)
         | (Inr st, c1) \<Rightarrow>
             if st = ''running''
             then (Returned, c1\<lparr>self := (self c1)\<lparr>started := True\<rparr>\<rparr>)
             else (let c2 = log ''VirtualBox VM went down, restarting...'' c1
                   in (Returned, write_state (c2\<lparr>self := (self c2)\<lparr>started := False\<rparr>\<rparr>))))
      else (Returned, c))"

text \<open>Lines 233-234.\<close>

definition ensure_key_pair :: "backend \<Rightarrow> conf \<Rightarrow> outcome \<times> conf" where
  "ensure_key_pair be c =
     (if \<not> truthy (client_private_key (self c)) then
        (case create_key_pair be c of
           ((priv, pub), c1) \<Rightarrow>
             (Returned,
              c1\<lparr>self := (self c1)\<lparr>client_private_key := Some priv,
                                    client_public_key := Some pub\<rparr>\<rparr>))
      else (Returned, c))"

text \<open>Lines 236-245.\<close>

definition start_step :: "backend \<Rightarrow> VirtualBoxDefinition \<Rightarrow> conf \<Rightarrow> outcome \<times> conf" where
  "start_step be defn c =
     (if \<not> started (self c) then
        (case subprocess_call be
                (lit [''VBoxManage'', ''modifyvm''] @ [vm_id (self c)]
                 @ lit [''--memory'', memory_size defn, ''--vram'', ''10'',
                        ''--nictype1'', ''virtio'', ''--nictype2'', ''virtio'',
                        ''--nic2'', ''hostonly'', ''--hostonlyadapter2'', ''vboxnet0'',
                        ''--nestedpaging'', ''off'']) c of
           (Inl e, c1) \<Rightarrow> (Raised e, c1)
         | (Inr res, c1) \<Rightarrow>
             if res \<noteq> 0 then (Raised (Exception ''unable to modify VirtualBox VM''), c1)
             else u_start be (headless defn) c1)
      else (Returned, c))"

text \<open>Lines 247-248.\<close>

definition discover_ip :: "nat \<Rightarrow> backend \<Rightarrow> bool \<Rightarrow> conf \<Rightarrow> outcome \<times> conf" where
  "discover_ip fuel be check c =
     (if \<not> truthy (ipv4 (self c)) \<or> check then wait_for_ip fuel be c else (Returned, c))"

definition create :: "nat \<Rightarrow> backend \<Rightarrow> machine \<Rightarrow> VirtualBoxDefinition \<Rightarrow> bool \<Rightarrow> conf \<Rightarrow> outcome \<times> conf" where
  "create fuel be m defn check c =
     and_then (and_then (and_then (and_then (and_then (and_then
       (create_vm be m c)
       (clone_disk be m defn))
       (attach_disk be))
       (check_running be check))
       (ensure_key_pair be))
       (start_step be defn))
       (discover_ip fuel be check)"

section \<open>destroy and start\<close>

text \<open>The loop of \<^verbatim>\<open>destroy\<close> (lines 257-258), bounded like the one above.\<close>

fun wait_until_off :: "nat \<Rightarrow> backend \<Rightarrow> conf \<Rightarrow> outcome \<times> conf" where
  "wait_until_off 0 be c = (OutOfFuel, c)"
| "wait_until_off (Suc n) be c =
     (case get_vm_state be c of
        (Inl e, c1) \<Rightarrow> (Raised e, c1)
      | (Inr st, c1) \<Rightarrow>
          if st \<notin> set [''poweroff'', ''aborted''] then wait_until_off n be (sleep 1 c1)
          else (Returned, c1))"

text \<open>
  \<^verbatim>\<open>destroy\<close> (lines 251-263). The exit status of \<^verbatim>\<open>controlvm poweroff\<close> is
  not looked at.
\<close>

definition power_off_if_running :: "backend \<Rightarrow> conf \<Rightarrow> outcome \<times> conf" where
  "power_off_if_running be c =
     (case get_vm_state be c of
        (Inl e, c1) \<Rightarrow> (Raised e, c1)
      | (Inr st, c1) \<Rightarrow>
          if st = ''running''
          then (case subprocess_call be
                       (lit [''VBoxManage'', ''controlvm''] @ [vm_id (self c1)] @ lit [''poweroff'']) c1 of
                  (Inl e, c2) \<Rightarrow> (Raised e, c2)
                | (Inr res, c2) \<Rightarrow> (Returned, c2))
          else (Returned, c1))"

definition unregister_vm :: "backend \<Rightarrow> conf \<Rightarrow> outcome \<times> conf" where
  "unregister_vm be c =
     (let c0 = sleep 1 c in
      case subprocess_call be
             (lit [''VBoxManage'', ''unregistervm'', ''--delete''] @ [vm_id (self c0)]) c0 of
        (Inl e, c1) \<Rightarrow> (Raised e, c1)
      | (Inr res, c1) \<Rightarrow>
          if res \<noteq> 0 then (Raised (Exception ''unable to unregister VirtualBox VM''), c1)
          else (Returned, c1))"

definition destroy :: "nat \<Rightarrow> backend \<Rightarrow> conf \<Rightarrow> outcome \<times> conf" where
  "destroy fuel be c =
     and_then (and_then
       (power_off_if_running be (log ''destroying VirtualBox VM...'' c))
       (wait_until_off fuel be))
       (unregister_vm be)"

text \<open>\<^verbatim>\<open>start\<close> (lines 280-290).\<close>

definition start :: "nat \<Rightarrow> backend \<Rightarrow> conf \<Rightarrow> outcome \<times> conf" where
  "start fuel be c =
     (case get_vm_state be c of
        (Inl e, c1) \<Rightarrow> (Raised e, c1)
      | (Inr st, c1) \<Rightarrow>
          if st = ''running'' then (Returned, c1)
          else
            (let c2 = log ''restarting...'' c1;
                 prev_ipv4 = ipv4 (self c2)
             in case and_then (u_start be False c2) (wait_for_ip fuel be) of
                  (Returned, c3) \<Rightarrow>
                    if prev_ipv4 \<noteq> ipv4 (self c3)
                    then (Returned, warn ''IP address has changed, you may need to run charon deploy'' c3)
                    else (Returned, c3)
                | r \<Rightarrow> r))"

section \<open>Vocabulary of the properties\<close>

text \<open>The subcommand of a \<^verbatim>\<open>VBoxManage\<close> invocation is the second word of its argv.\<close>

fun subcommand :: "string list \<Rightarrow> string" where
  "subcommand (x # y # ys) = y"
| "subcommand xs = []"

fun is_cmd :: "string \<Rightarrow> event \<Rightarrow> bool" where
  "is_cmd sub (Call a st) = (subcommand a = sub)"
| "is_cmd sub e = False"

fun is_Write :: "event \<Rightarrow> bool" where
  "is_Write (Write s) = True"
| "is_Write e = False"

fun is_KnownHostsRemove :: "event \<Rightarrow> bool" where
  "is_KnownHostsRemove (KnownHostsRemove a) = True"
| "is_KnownHostsRemove e = False"

text \<open>A \<^verbatim>\<open>subprocess.call\<close> that exited with a nonzero status.\<close>

fun failed :: "event \<Rightarrow> bool" where
  "failed (Call a st) = (st \<noteq> 0)"
| "failed e = False"

text \<open>The durable record after a sequence of events: the argument of the last \<open>Write\<close>.\<close>

fun last_write :: "VirtualBoxState \<Rightarrow> event list \<Rightarrow> VirtualBoxState" where
  "last_write st [] = st"
| "last_write st (Write s # es) = last_write s es"
| "last_write st (e # es) = last_write st es"

text \<open>The events a call adds to the trace all satisfy \<open>P\<close>.\<close>

definition appends :: "(event \<Rightarrow> bool) \<Rightarrow> conf \<Rightarrow> 'a \<times> conf \<Rightarrow> bool" where
  "appends P c rc = (\<exists>evs. trace (snd rc) = trace c @ evs \<and> list_all P evs)"

text \<open>No event but the last is a failed call.\<close>

fun quiet :: "event list \<Rightarrow> bool" where
  "quiet [] = True"
| "quiet [e] = True"
| "quiet (e # es) = (\<not> failed e \<and> quiet es)"

text \<open>
  The field that guards the block a command belongs to is unset: \<^verbatim>\<open>createvm\<close> is
  guarded by the resource id, \<^verbatim>\<open>clonehd\<close> by the disk path, \<^verbatim>\<open>storagectl\<close> and
  \<^verbatim>\<open>storageattach\<close> by the attachment flag, \<^verbatim>\<open>modifyvm\<close>,
  \<^verbatim>\<open>guestproperty set\<close> and \<^verbatim>\<open>startvm\<close> by the started flag.
\<close>

definition step_unset :: "string \<Rightarrow> VirtualBoxState \<Rightarrow> bool" where
  "step_unset sub s =
     (if sub = ''createvm'' then \<not> truthy (vm_id s)
      else if sub = ''clonehd'' then \<not> truthy (disk s)
      else if sub \<in> set [''storagectl'', ''storageattach''] then \<not> disk_attached s
      else if sub \<in> set [''modifyvm'', ''guestproperty'', ''startvm''] then \<not> started s
      else False)"

text \<open>The durable record holds no guarded field that the in-memory record lacks.\<close>

definition covered :: "conf \<Rightarrow> bool" where
  "covered c =
     ((truthy (vm_id (store c)) \<longrightarrow> truthy (vm_id (self c)))
      \<and> (truthy (disk (store c)) \<longrightarrow> truthy (disk (self c)))
      \<and> (disk_attached (store c) \<longrightarrow> disk_attached (self c))
      \<and> (started (store c) \<longrightarrow> started (self c)))"

text \<open>
  What a call leaves behind: it only adds events, the durable record is that of the
  last \<open>Write\<close>, and a failed command is the last event, raises, and leaves the
  field of its block unset in the durable record.
\<close>

definition clean_abort :: "conf \<Rightarrow> outcome \<times> conf \<Rightarrow> bool" where
  "clean_abort c rc =
     (case rc of (r, c') \<Rightarrow>
        \<exists>evs. trace c' = trace c @ evs \<and> store c' = last_write (store c) evs
          \<and> quiet evs \<and> covered c'
          \<and> (evs \<noteq> [] \<and> failed (last evs) \<longrightarrow>
                (\<exists>msg. r = Raised (Exception msg))
                \<and> (\<exists>a st. last evs = Call a st \<and> step_unset (subcommand a) (store c'))))"

text \<open>\<open>None\<close> and the empty string both count as unset; a set field is kept as it is.\<close>

definition keep_set :: "pystr \<Rightarrow> pystr" where
  "keep_set v = (if truthy v then v else None)"

text \<open>
  What \<^verbatim>\<open>_get_vm_state\<close> makes of the lines that \<^verbatim>\<open>showvminfo\<close> printed
  (the part of \<open>get_vm_info\<close> and \<open>get_vm_state\<close> after the process has run).
\<close>

definition vm_state_reply :: "string list \<Rightarrow> exn + string" where
  "vm_state_reply lines =
     (if length lines = 0 then Inl (Exception ''unable to get info on VirtualBox VM'')
      else case parse_vm_info lines Map.empty of
             Inl e \<Rightarrow> Inl e
           | Inr vminfo \<Rightarrow>
               (case vminfo ''VMState'' of
                  None \<Rightarrow> Inl (Exception ''unable to get state of VirtualBox VM'')
                | Some v \<Rightarrow> Inr (filter (\<lambda>ch. ch \<noteq> CHR 0x22) v)))"

text \<open>
  The events of the start block of \<open>create\<close> in the order of the source (lines
  237-245 and 134-146), for the machine \<open>v\<close> and the public key \<open>key\<close>, when
  \<open>n\<close> commands have been run before.
\<close>

definition start_events :: "backend \<Rightarrow> VirtualBoxDefinition \<Rightarrow> nat \<Rightarrow> string \<Rightarrow> string \<Rightarrow> VirtualBoxState \<Rightarrow> event list" where
  "start_events be defn n v key s =
     [Call ([''VBoxManage'', ''modifyvm'', v, ''--memory'', memory_size defn, ''--vram'', ''10'',
             ''--nictype1'', ''virtio'', ''--nictype2'', ''virtio'',
             ''--nic2'', ''hostonly'', ''--hostonlyadapter2'', ''vboxnet0'',
             ''--nestedpaging'', ''off'']) (call_status be n),
      Call [''VBoxManage'', ''guestproperty'', ''set'', v,
            ''/VirtualBox/GuestInfo/Net/1/V4/IP'', []] (call_status be (n + 1)),
      Call [''VBoxManage'', ''guestproperty'', ''set'', v,
            ''/VirtualBox/GuestInfo/Charon/ClientPublicKey'', key] (call_status be (n + 2)),
      Call ([''VBoxManage'', ''startvm'', v] @ (if headless defn then [''--type'', ''headless''] else []))
           (call_status be (n + 3)),
      Write (s\<lparr>started := True\<rparr>)]"

text \<open>
  Address discovery (lines 149-166) in terms of the backend's replies. The \<open>k\<close>-th
  \<^verbatim>\<open>guestproperty get\<close> is the event \<open>poll be v k\<close>. Its reply either shows no
  address yet (status 0, no \<^verbatim>\<open>Value: \<close> prefix after \<^verbatim>\<open>rstrip\<close>), or publishes
  an address (status 0 and the prefix), or is a failure (nonzero status).
  \<open>waiting be v k n\<close> are the events of \<open>n\<close> polls without an address, each
  followed by the sleep of one second.
\<close>

definition ip_argv :: "string \<Rightarrow> string list" where
  "ip_argv v = [''VBoxManage'', ''guestproperty'', ''get'', v, ''/VirtualBox/GuestInfo/Net/1/V4/IP'']"

definition poll :: "backend \<Rightarrow> string \<Rightarrow> nat \<Rightarrow> event" where
  "poll be v k =
     CheckOutput (ip_argv v) (fst (check_output_reply be k)) (snd (check_output_reply be k))"

definition no_address_yet :: "backend \<Rightarrow> nat \<Rightarrow> bool" where
  "no_address_yet be k =
     (fst (check_output_reply be k) = 0
      \<and> take 7 (rstrip (snd (check_output_reply be k))) \<noteq> ''Value: '')"

definition published :: "backend \<Rightarrow> nat \<Rightarrow> string option" where
  "published be k =
     (if fst (check_output_reply be k) = 0
         \<and> take 7 (rstrip (snd (check_output_reply be k))) = ''Value: ''
      then Some (drop 7 (rstrip (snd (check_output_reply be k)))) else None)"

fun waiting :: "backend \<Rightarrow> string \<Rightarrow> nat \<Rightarrow> nat \<Rightarrow> event list" where
  "waiting be v k 0 = []"
| "waiting be v k (Suc n) = poll be v k # Sleep 1 # waiting be v (Suc k) n"

text \<open>Sample inputs for the concrete instances below.\<close>

definition ex_machine :: machine where
  "ex_machine =
     \<lparr>name = ''web'', uuid = ''u1'', tempdir = ''/tmp/charon'', expr_path = ''/nix/charon'',
      nix_exprs = [''network.nix''], home = Some ''/home/alice''\<rparr>"

definition ex_defn :: VirtualBoxDefinition where
  "ex_defn = \<lparr>base_image = ''/images/base.vdi'', memory_size = ''512'', headless = True\<rparr>"

definition ex_provisioned :: VirtualBoxState where
  "ex_provisioned =
     \<lparr>vm_id = Some ''charon-u1-web'', ipv4 = Some ''192.168.56.101'',
      disk = Some ''/home/alice/VirtualBox VMs/charon-u1-web/disk1.vdi'',
      disk_attached = True, started = True,
      client_private_key = Some ''PRIVATE'', client_public_key = Some ''PUBLIC''\<rparr>"

definition ex_conf :: "VirtualBoxState \<Rightarrow> conf" where
  "ex_conf s = \<lparr>self = s, trace = [], store = s\<rparr>"

text \<open>
  A backend where every command succeeds, the machine is reported as \<open>st\<close>, and
  the address fact is published from the second poll on.
\<close>

definition ex_backend :: "string \<Rightarrow> backend" where
  "ex_backend st =
     \<lparr>call_status = (\<lambda>k. 0),
      check_output_reply =
        (\<lambda>k. if k = 0 then (0, ''No value set!'' @ [CHR 0x0A])
             else (0, ''Value: 192.168.56.102'' @ [CHR 0x0A])),
      popen_lines = (\<lambda>k. [''name=web'', ''VMState='' @ [CHR 0x22] @ st @ [CHR 0x22]]),
      isdir_reply = (\<lambda>k. True),
      key_pair = (\<lambda>k. (''PRIVATE'', ''PUBLIC''))\<rparr>"

definition ex_partial :: VirtualBoxState where
  "ex_partial =
     \<lparr>vm_id = Some ''charon-u1-web'', ipv4 = None,
      disk = Some ''/home/alice/VirtualBox VMs/charon-u1-web/disk1.vdi'',
      disk_attached = False, started = False,
      client_private_key = None, client_public_key = None\<rparr>"

text \<open>The same backend, except that the \<open>n\<close>-th command exits with status 1.\<close>

definition ex_failing :: "nat \<Rightarrow> backend" where
  "ex_failing n = (ex_backend ''poweroff'')\<lparr>call_status := (\<lambda>k. if k = n then 1 else 0)\<rparr>"

definition ex_stopped :: VirtualBoxState where
  "ex_stopped = ex_provisioned\<lparr>started := False\<rparr>"

definition ex_no_keys :: VirtualBoxState where
  "ex_no_keys =
     \<lparr>vm_id = Some ''charon-u1-web'', ipv4 = None,
      disk = Some ''/home/alice/VirtualBox VMs/charon-u1-web/disk1.vdi'',
      disk_attached = True, started = False,
      client_private_key = None, client_public_key = None\<rparr>"

text \<open>A backend whose machine is reported running, then stopping, then powered off.\<close>

definition ex_shutting_down :: backend where
  "ex_shutting_down =
     (ex_backend ''poweroff'')
       \<lparr>popen_lines :=
          (\<lambda>k. [''VMState='' @ [CHR 0x22]
                     @ (if k = 0 then ''running'' else if k = 1 then ''stopping'' else ''poweroff'')
                     @ [CHR 0x22]])\<rparr>"

section \<open>Basic facts\<close>

lemma and_then_simps:
  "and_then (Returned, c) f = f c"
  "and_then (Raised e, c) f = (Raised e, c)"
  "and_then (OutOfFuel, c) f = (OutOfFuel, c)"
  by (simp_all add: and_then_def)

lemma count_append [simp]: "count P (h @ es) = count P h + count P es"
  by (simp add: count_def)

lemma count_Cons [simp]: "count P (e # es) = (if P e then 1 else 0) + count P es"
  by (simp add: count_def)

lemma count_Nil [simp]: "count P [] = 0"
  by (simp add: count_def)

lemma emit_simps [simp]:
  "trace (emit e c) = trace c @ [e]" "self (emit e c) = self c" "store (emit e c) = store c"
  by (simp_all add: emit_def)

lemma write_state_simps [simp]:
  "trace (write_state c) = trace c @ [Write (self c)]" "self (write_state c) = self c"
  "store (write_state c) = self c"
  by (simp_all add: write_state_def)

lemma log_simps [simp]:
  "trace (log msg c) = trace c @ [Log msg]" "self (log msg c) = self c" "store (log msg c) = store c"
  by (simp_all add: log_def)

lemma sleep_simps [simp]:
  "trace (sleep n c) = trace c @ [Sleep n]" "self (sleep n c) = self c" "store (sleep n c) = store c"
  by (simp_all add: sleep_def)

lemma known_hosts_remove_simps [simp]:
  "trace (known_hosts_remove a c) = trace c @ [KnownHostsRemove a]"
  "self (known_hosts_remove a c) = self c" "store (known_hosts_remove a c) = store c"
  by (simp_all add: known_hosts_remove_def)

lemma those_lit [simp]: "those (lit xs) = Some xs"
  by (induction xs) (simp_all add: lit_def)

lemma those_append:
  "those (xs @ ys) = (case those xs of None \<Rightarrow> None | Some a \<Rightarrow> map_option ((@) a) (those ys))"
  by (induction xs) (cases "those ys"; auto split: option.splits)+

lemma those_lit_append [simp]: "those (lit xs @ ys) = map_option ((@) xs) (those ys)"
  by (simp add: those_append)

text \<open>What one \<^verbatim>\<open>subprocess.call\<close> does to the configuration.\<close>

lemma subprocess_call_cases:
  assumes "subprocess_call be args c = (r, c')"
  obtains (type_error) "those args = None" "r = Inl TypeError" "c' = c"
  | (ran) a where "those args = Some a" "r = Inr (call_status be (count is_Call (trace c)))"
      "c' = emit (Call a (call_status be (count is_Call (trace c)))) c"
  using assms by (auto simp: subprocess_call_def Let_def split: option.splits)

lemma appends_refl: "appends P c (r, c)"
  by (simp add: appends_def)

lemma appends_mono: "appends P c rc \<Longrightarrow> (\<And>e. P e \<Longrightarrow> Q e) \<Longrightarrow> appends Q c rc"
  by (auto simp: appends_def list_all_iff)

lemma appends_trans:
  "appends P c (r1, c1) \<Longrightarrow> appends P c1 rc \<Longrightarrow> appends P c rc"
  by (auto simp: appends_def)

lemma appends_and_then:
  assumes "appends P c rc" and "\<And>c1. appends P c1 (g c1)"
  shows "appends P c (and_then rc g)"
proof (cases rc)
  case (Pair r c1)
  show ?thesis
  proof (cases r)
    case Returned
    with Pair assms(1) assms(2) [of c1] show ?thesis
      by (auto simp: and_then_def intro: appends_trans)
  qed (use Pair assms(1) in \<open>simp_all add: and_then_def\<close>)
qed

lemma appends_subprocess_call:
  assumes "\<And>a st. those args = Some a \<Longrightarrow> P (Call a st)"
  shows "appends P c (subprocess_call be args c)"
  using assms by (auto simp: appends_def subprocess_call_def Let_def split: option.splits)

section \<open>Idempotence of create\<close>

lemma create_noop:
  assumes "truthy (vm_id (self c))" and "truthy (disk (self c))" and "disk_attached (self c)"
    and "truthy (client_private_key (self c))" and "started (self c)" and "truthy (ipv4 (self c))"
  shows "create fuel be m defn False c = (Returned, c)"
  using assms
  by (simp add: create_def create_vm_def clone_disk_def attach_disk_def check_running_def
      ensure_key_pair_def start_step_def discover_ip_def and_then_simps)

text \<open>
  C1. On a record in which the resource id, the disk path, the attachment flag, the
  private key, the started flag and the address are all set, \<open>create\<close> with
  \<open>check = False\<close> returns at once: the configuration it leaves, that is the
  in-memory record, the durable record and the trace of issued commands, is the
  one it was given. No backend command of any kind is issued, whatever the
  backend would have replied.
\<close>

theorem create_idempotent:
  assumes "truthy (vm_id (self c))" and "truthy (disk (self c))" and "disk_attached (self c)"
    and "truthy (client_private_key (self c))" and "started (self c)" and "truthy (ipv4 (self c))"
  shows "create fuel be m defn False c = (Returned, c)"
  using assms by (rule create_noop)

theorem create_idempotent_witness:
  "truthy (vm_id (self (ex_conf ex_provisioned))) \<and> truthy (disk (self (ex_conf ex_provisioned)))
   \<and> disk_attached (self (ex_conf ex_provisioned))
   \<and> truthy (client_private_key (self (ex_conf ex_provisioned)))
   \<and> started (self (ex_conf ex_provisioned)) \<and> truthy (ipv4 (self (ex_conf ex_provisioned)))
   \<and> create 0 (ex_backend ''running'') ex_machine ex_defn False (ex_conf ex_provisioned)
       = (Returned, ex_conf ex_provisioned)"
  using create_idempotent [of "ex_conf ex_provisioned" 0 "ex_backend ''running''" ex_machine ex_defn]
  by (simp add: ex_conf_def ex_provisioned_def truthy_def)

section \<open>The persisted form\<close>

lemma get_str_put_if_same: "get_str (put_if k v x) k = (if truthy v then Inr v else get_str x k)"
  by (simp add: get_str_def put_if_def truthy_def split: option.splits)

lemma get_str_put_if_other: "k \<noteq> k' \<Longrightarrow> get_str (put_if k' v x) k = get_str x k"
  by (simp add: get_str_def put_if_def split: option.splits)

lemma get_str_upd_other: "k \<noteq> k' \<Longrightarrow> get_str (x(k' \<mapsto> v)) k = get_str x k"
  by (simp add: get_str_def)

lemma get_str_absent: "x k = None \<Longrightarrow> get_str x k = Inr None"
  by (simp add: get_str_def)

lemma get_bool_absent: "y k = None \<Longrightarrow> get_bool y k = Inr False"
  by (simp add: get_bool_def)

lemma get_bool_upd: "get_bool (y(k' \<mapsto> JBool b)) k = (if k = k' then Inr b else get_bool y k)"
  by (simp add: get_bool_def)

lemma put_if_apply: "put_if k v x k' = (if k' = k \<and> truthy v then map_option JStr v else x k')"
  by (simp add: put_if_def truthy_def split: option.splits)

lemma deserialise_serialise:
  assumes "base ''vmId'' = None" and "base ''privateIpv4'' = None"
  shows "deserialise (serialise base s) =
     Inr \<lparr>vm_id = keep_set (vm_id s), ipv4 = keep_set (ipv4 s), disk = keep_set (disk s),
          disk_attached = disk_attached s, started = started s,
          client_private_key = keep_set (client_private_key s),
          client_public_key = keep_set (client_public_key s)\<rparr>"
  using assms
  by (simp add: deserialise_def serialise_def Let_def get_str_put_if_same get_str_put_if_other
      get_str_upd_other get_str_absent get_bool_upd keep_set_def put_if_apply)

text \<open>The nested mapping that \<open>serialise\<close> stores under \<^verbatim>\<open>virtualbox\<close>.\<close>

lemma serialise_nested:
  "\<exists>y. serialise base s ''virtualbox'' = Some (JObj y)
       \<and> y ''diskAttached'' = Some (JBool (disk_attached s))
       \<and> y ''started'' = Some (JBool (started s))
       \<and> y ''disk'' = map_option JStr (keep_set (disk s))
       \<and> y ''clientPrivateKey'' = map_option JStr (keep_set (client_private_key s))
       \<and> y ''clientPublicKey'' = map_option JStr (keep_set (client_public_key s))"
  by (simp add: serialise_def Let_def put_if_apply keep_set_def)

lemma serialise_top:
  "serialise base s ''vmId'' = (if truthy (vm_id s) then map_option JStr (vm_id s) else base ''vmId'')"
  "serialise base s ''privateIpv4'' = (if truthy (ipv4 s) then map_option JStr (ipv4 s) else base ''privateIpv4'')"
  by (simp_all add: serialise_def Let_def put_if_apply)

lemma deserialise_defaults:
  assumes "deserialise x = Inr s'" and "x ''virtualbox'' = Some (JObj y)"
  shows "(x ''vmId'' = None \<longrightarrow> vm_id s' = None) \<and> (x ''privateIpv4'' = None \<longrightarrow> ipv4 s' = None)
       \<and> (y ''disk'' = None \<longrightarrow> disk s' = None)
       \<and> (y ''clientPrivateKey'' = None \<longrightarrow> client_private_key s' = None)
       \<and> (y ''clientPublicKey'' = None \<longrightarrow> client_public_key s' = None)
       \<and> (y ''diskAttached'' = None \<longrightarrow> \<not> disk_attached s')
       \<and> (y ''started'' = None \<longrightarrow> \<not> started s')"
  using assms
  by (auto simp: deserialise_def get_str_absent get_bool_absent split: sum.splits)

text \<open>
  C4. Serialising a record and deserialising the result gives back every field that
  is set (a non-empty string), and both boolean fields. A field that is unset
  (\<open>None\<close> or the empty string, which every guard of the source treats alike) is
  left out of the mapping and comes back as \<open>None\<close>. For any mapping that has
  the nested group, a missing key deserialises to the default: \<open>None\<close> for the
  optional fields, \<open>False\<close> for \<open>diskAttached\<close> and \<open>started\<close>. The base
  class's part of the mapping is assumed not to use the two top-level keys.
\<close>

theorem roundtrip_persistence:
  assumes "base ''vmId'' = None" and "base ''privateIpv4'' = None"
  shows "(\<exists>s' y. deserialise (serialise base s) = Inr s'
            \<and> serialise base s ''virtualbox'' = Some (JObj y)
            \<and> (if truthy (vm_id s) then vm_id s' = vm_id s
                else vm_id s' = None \<and> serialise base s ''vmId'' = None)
            \<and> (if truthy (ipv4 s) then ipv4 s' = ipv4 s
                else ipv4 s' = None \<and> serialise base s ''privateIpv4'' = None)
            \<and> (if truthy (disk s) then disk s' = disk s
                else disk s' = None \<and> y ''disk'' = None)
            \<and> (if truthy (client_private_key s) then client_private_key s' = client_private_key s
                else client_private_key s' = None \<and> y ''clientPrivateKey'' = None)
            \<and> (if truthy (client_public_key s) then client_public_key s' = client_public_key s
                else client_public_key s' = None \<and> y ''clientPublicKey'' = None)
            \<and> disk_attached s' = disk_attached s \<and> started s' = started s)
       \<and> (\<forall>x y s'. deserialise x = Inr s' \<and> x ''virtualbox'' = Some (JObj y) \<longrightarrow>
              (x ''vmId'' = None \<longrightarrow> vm_id s' = None)
            \<and> (x ''privateIpv4'' = None \<longrightarrow> ipv4 s' = None)
            \<and> (y ''disk'' = None \<longrightarrow> disk s' = None)
            \<and> (y ''clientPrivateKey'' = None \<longrightarrow> client_private_key s' = None)
            \<and> (y ''clientPublicKey'' = None \<longrightarrow> client_public_key s' = None)
            \<and> (y ''diskAttached'' = None \<longrightarrow> \<not> disk_attached s')
            \<and> (y ''started'' = None \<longrightarrow> \<not> started s'))"
proof (intro conjI allI impI)
  obtain y where y: "serialise base s ''virtualbox'' = Some (JObj y)"
    "y ''disk'' = map_option JStr (keep_set (disk s))"
    "y ''clientPrivateKey'' = map_option JStr (keep_set (client_private_key s))"
    "y ''clientPublicKey'' = map_option JStr (keep_set (client_public_key s))"
    using serialise_nested [of base s] by blast
  show "\<exists>s' y. deserialise (serialise base s) = Inr s'
            \<and> serialise base s ''virtualbox'' = Some (JObj y)
            \<and> (if truthy (vm_id s) then vm_id s' = vm_id s
                else vm_id s' = None \<and> serialise base s ''vmId'' = None)
            \<and> (if truthy (ipv4 s) then ipv4 s' = ipv4 s
                else ipv4 s' = None \<and> serialise base s ''privateIpv4'' = None)
            \<and> (if truthy (disk s) then disk s' = disk s
                else disk s' = None \<and> y ''disk'' = None)
            \<and> (if truthy (client_private_key s) then client_private_key s' = client_private_key s
                else client_private_key s' = None \<and> y ''clientPrivateKey'' = None)
            \<and> (if truthy (client_public_key s) then client_public_key s' = client_public_key s
                else client_public_key s' = None \<and> y ''clientPublicKey'' = None)
            \<and> disk_attached s' = disk_attached s \<and> started s' = started s"
    using y assms
    by (simp add: deserialise_serialise serialise_top keep_set_def)
qed (use deserialise_defaults in blast)+

theorem roundtrip_persistence_witness:
  "(Map.empty :: jdict) ''vmId'' = None \<and> (Map.empty :: jdict) ''privateIpv4'' = None
   \<and> deserialise (serialise Map.empty ex_partial) = Inr ex_partial
   \<and> serialise Map.empty ex_partial ''privateIpv4'' = None
   \<and> deserialise (Map.empty(''virtualbox'' \<mapsto> JObj Map.empty)) = Inr init_state"
  using roundtrip_persistence [of Map.empty ex_partial]
  by (simp add: deserialise_def serialise_def put_if_def get_str_def get_bool_def ex_partial_def
      init_state_def truthy_def)


section \<open>Failed commands\<close>

lemma last_write_append: "last_write st (xs @ ys) = last_write (last_write st xs) ys"
  by (induction st xs rule: last_write.induct) simp_all

lemma quiet_all: "quiet evs \<Longrightarrow> evs = [] \<or> \<not> failed (last evs) \<Longrightarrow> list_all (\<lambda>e. \<not> failed e) evs"
  by (induction evs rule: quiet.induct) auto

lemma quiet_append: "list_all (\<lambda>e. \<not> failed e) xs \<Longrightarrow> quiet ys \<Longrightarrow> quiet (xs @ ys)"
proof (induction xs)
  case Nil
  then show ?case by simp
next
  case (Cons x xs)
  then show ?case by (cases "xs @ ys") auto
qed

lemma quiet_failed_last: "quiet (pre @ e # post) \<Longrightarrow> failed e \<Longrightarrow> post = []"
proof (induction pre)
  case Nil
  then show ?case by (cases post) auto
next
  case (Cons x pre)
  then show ?case by (cases "pre @ e # post") auto
qed

lemma clean_abort_refl: "covered c \<Longrightarrow> clean_abort c (r, c)"
  by (simp add: clean_abort_def)

lemma clean_abort_trans:
  assumes "clean_abort c (Returned, c1)" and "clean_abort c1 rc"
  shows "clean_abort c rc"
proof -
  obtain r c2 where rc: "rc = (r, c2)" by (cases rc)
  from assms(1) obtain evs1 where 1: "trace c1 = trace c @ evs1"
    "store c1 = last_write (store c) evs1" "quiet evs1" "evs1 = [] \<or> \<not> failed (last evs1)"
    by (auto simp: clean_abort_def)
  from assms(2) rc obtain evs2 where 2: "trace c2 = trace c1 @ evs2"
    "store c2 = last_write (store c1) evs2" "quiet evs2" "covered c2"
    "evs2 \<noteq> [] \<and> failed (last evs2) \<longrightarrow>
       (\<exists>msg. r = Raised (Exception msg))
       \<and> (\<exists>a st. last evs2 = Call a st \<and> step_unset (subcommand a) (store c2))"
    by (auto simp: clean_abort_def)
  have q: "quiet (evs1 @ evs2)"
    using quiet_all [OF 1(3) 1(4)] 2(3) by (rule quiet_append)
  have t: "trace c2 = trace c @ (evs1 @ evs2)"
    using 1(1) 2(1) by simp
  have s: "store c2 = last_write (store c) (evs1 @ evs2)"
    using 1(2) 2(2) by (simp add: last_write_append)
  have f: "evs1 @ evs2 \<noteq> [] \<and> failed (last (evs1 @ evs2)) \<longrightarrow>
       (\<exists>msg. r = Raised (Exception msg))
       \<and> (\<exists>a st. last (evs1 @ evs2) = Call a st \<and> step_unset (subcommand a) (store c2))"
  proof (cases "evs2 = []")
    case True
    then show ?thesis using 1(4) by auto
  next
    case False
    then have "last (evs1 @ evs2) = last evs2" by simp
    then show ?thesis using 2(5) False by simp
  qed
  have "\<exists>evs. trace c2 = trace c @ evs \<and> store c2 = last_write (store c) evs
          \<and> quiet evs \<and> covered c2
          \<and> (evs \<noteq> [] \<and> failed (last evs) \<longrightarrow>
                (\<exists>msg. r = Raised (Exception msg))
                \<and> (\<exists>a st. last evs = Call a st \<and> step_unset (subcommand a) (store c2)))"
    using t s q 2(4) f by (intro exI [of _ "evs1 @ evs2"] conjI)
  then show ?thesis
    unfolding rc clean_abort_def by simp
qed

lemma clean_abort_and_then:
  assumes "clean_abort c rc" and "\<And>c1. covered c1 \<Longrightarrow> clean_abort c1 (g c1)"
  shows "clean_abort c (and_then rc g)"
proof (cases rc)
  case (Pair r c1)
  show ?thesis
  proof (cases r)
    case Returned
    have "covered c1" using assms(1) Pair by (auto simp: clean_abort_def)
    then show ?thesis
      using Pair Returned assms(1) assms(2) [of c1]
      by (auto simp: and_then_simps intro: clean_abort_trans)
  qed (use Pair assms(1) in \<open>simp_all add: and_then_simps\<close>)
qed

lemma clean_abortI:
  assumes "trace c' = trace c @ evs" and "store c' = last_write (store c) evs" and "quiet evs"
    and "covered c'"
    and "evs \<noteq> [] \<and> failed (last evs) \<longrightarrow>
           (\<exists>msg. r = Raised (Exception msg))
           \<and> (\<exists>a st. last evs = Call a st \<and> step_unset (subcommand a) (store c'))"
  shows "clean_abort c (r, c')"
  unfolding clean_abort_def prod.case using assms by blast

lemma clean_abort_failed_call:
  assumes "covered c" and "st \<noteq> 0" and "step_unset (subcommand a) (store c)"
  shows "clean_abort c (Raised (Exception msg), emit (Call a st) c)"
  using assms by (intro clean_abortI [of _ _ "[Call a st]"]) (simp_all add: covered_def)

lemma clean_abort_event:
  assumes "covered c" and "\<not> failed e" and "\<not> is_Write e"
  shows "clean_abort c (r, emit e c)"
  using assms by (intro clean_abortI [of _ _ "[e]"]) (cases e; simp add: covered_def)+

lemma clean_abort_write:
  shows "clean_abort c (r, write_state (c\<lparr>self := s\<rparr>))"
  by (intro clean_abortI [of _ _ "[Write s]"]) (simp_all add: covered_def)

lemma clean_abort_self:
  assumes "covered (c\<lparr>self := s\<rparr>)"
  shows "clean_abort c (r, c\<lparr>self := s\<rparr>)"
  using assms by (intro clean_abortI [of _ _ "[]"]) simp_all

lemma clean_abort_step:
  assumes "clean_abort c (Returned, c1)" and "covered c1 \<Longrightarrow> clean_abort c1 rc"
  shows "clean_abort c rc"
proof -
  have "covered c1" using assms(1) by (auto simp: clean_abort_def)
  then show ?thesis using assms by (blast intro: clean_abort_trans)
qed

text \<open>A successful call, as one step.\<close>

lemma clean_abort_call_ok: "covered c \<Longrightarrow> clean_abort c (Returned, emit (Call a 0) c)"
  by (rule clean_abort_event) simp_all

lemma covered_emit [simp]: "covered (emit e c) = covered c"
  by (simp add: covered_def)

lemma covered_log [simp]: "covered (log msg c) = covered c"
  by (simp add: covered_def)

lemma subcommand_lit: "those (lit (x # y # xs)) = Some a \<Longrightarrow> subcommand a = y"
  by auto

lemma subcommand_lit_append: "those (lit (x # y # xs) @ ys) = Some a \<Longrightarrow> subcommand a = y"
  by auto

text \<open>
  Every command of \<open>create\<close> is run in the same way: a nonzero status raises, a zero
  status goes on.
\<close>

lemma clean_abort_command:
  assumes cov: "covered c"
    and sub: "\<And>a. those args = Some a \<Longrightarrow> subcommand a = sub"
    and unset: "step_unset sub (store c)"
    and cont: "\<And>c1. covered c1 \<Longrightarrow> store c1 = store c \<Longrightarrow> self c1 = self c \<Longrightarrow> clean_abort c1 (k c1)"
  shows "clean_abort c
           (case subprocess_call be args c of
              (Inl e, c1) \<Rightarrow> (Raised e, c1)
            | (Inr res, c1) \<Rightarrow> if res \<noteq> 0 then (Raised (Exception msg), c1) else k c1)"
proof -
  obtain r c1 where rc: "subprocess_call be args c = (r, c1)"
    by (cases "subprocess_call be args c")
  then show ?thesis
  proof (cases rule: subprocess_call_cases)
    case type_error
    then show ?thesis using rc cov by (simp add: clean_abort_refl)
  next
    case (ran a)
    define st where "st = call_status be (count is_Call (trace c))"
    have c1: "c1 = emit (Call a st) c" and r: "r = Inr st"
      using ran by (simp_all add: st_def)
    show ?thesis
    proof (cases "st = 0")
      case True
      have "clean_abort c (Returned, c1)"
        unfolding c1 True using cov by (rule clean_abort_call_ok)
      moreover have "clean_abort c1 (k c1)"
        using cov by (intro cont) (simp_all add: c1)
      ultimately have "clean_abort c (k c1)"
        by (rule clean_abort_trans)
      then show ?thesis using rc r True by simp
    next
      case False
      have "clean_abort c (Raised (Exception msg), emit (Call a st) c)"
        using cov False unset sub [OF ran(1)] by (intro clean_abort_failed_call) simp_all
      then show ?thesis using rc r c1 False by simp
    qed
  qed
qed

lemma create_vm_clean:
  assumes "covered c"
  shows "clean_abort c (create_vm be m c)"
proof (cases "truthy (vm_id (self c))")
  case True
  then show ?thesis using assms by (simp add: create_vm_def clean_abort_refl)
next
  case False
  have 0: "clean_abort c (Returned, log ''creating VirtualBox VM...'' c)"
    unfolding log_def using assms by (intro clean_abort_event) simp_all
  have u: "step_unset ''createvm'' (store (log ''creating VirtualBox VM...'' c))"
    using False assms by (simp add: step_unset_def covered_def)
  show ?thesis
    unfolding create_vm_def Let_def using False
    apply (simp only: if_True simp_thms)
    apply (rule clean_abort_step [OF 0])
    apply (rule clean_abort_command [where sub = "''createvm''"])
       apply assumption
      apply (erule subcommand_lit)
     apply (rule u)
    apply (rule clean_abort_write)
    done
qed

lemma attach_disk_clean:
  assumes "covered c"
  shows "clean_abort c (attach_disk be c)"
proof (cases "disk_attached (self c)")
  case True
  then show ?thesis using assms by (simp add: attach_disk_def clean_abort_refl)
next
  case False
  have u: "step_unset ''storagectl'' (store c)" "step_unset ''storageattach'' (store c)"
    using False assms by (simp_all add: step_unset_def covered_def)
  show ?thesis
    unfolding attach_disk_def using False
    apply (simp only: if_True simp_thms)
    apply (rule clean_abort_command [where sub = "''storagectl''"])
       apply (rule assms)
      apply (erule subcommand_lit_append)
     apply (rule u)
    apply (rule clean_abort_command [where sub = "''storageattach''"])
       apply assumption
      apply (erule subcommand_lit_append)
     apply (simp add: u)
    apply (rule clean_abort_write)
    done
qed


text \<open>Queries add one event that is neither a command nor a write, or none.\<close>

lemma check_output_cases:
  assumes "check_output be args c = (r, c1)"
  obtains (type_error) "r = Inl TypeError" "c1 = c"
  | (ran) a st out where "those args = Some a" "c1 = emit (CheckOutput a st out) c"
      "(st, out) = check_output_reply be (count is_CheckOutput (trace c))"
      "r = (if st \<noteq> 0 then Inl CalledProcessError else Inr out)"
  using assms
  by (cases "check_output_reply be (count is_CheckOutput (trace c))")
     (auto simp: check_output_def Let_def split: option.splits if_splits)

lemma get_vm_info_cases:
  assumes "get_vm_info be c = (r, c1)"
  obtains (type_error) "vm_id (self c) = None" "r = Inl TypeError" "c1 = c"
  | (ran) v where "vm_id (self c) = Some v"
      "c1 = emit (Popen [''VBoxManage'', ''showvminfo'', ''--machinereadable'', v]
                   (popen_lines be (count is_Popen (trace c)))) c"
  using assms
  by (cases "vm_id (self c)") (auto simp: get_vm_info_def Let_def split: if_splits)

lemma get_vm_state_cases:
  assumes "get_vm_state be c = (r, c1)"
  obtains (type_error) "vm_id (self c) = None" "r = Inl TypeError" "c1 = c"
  | (ran) v where "vm_id (self c) = Some v"
      "c1 = emit (Popen [''VBoxManage'', ''showvminfo'', ''--machinereadable'', v]
                   (popen_lines be (count is_Popen (trace c)))) c"
  using assms
  by (cases "vm_id (self c)")
     (auto simp: get_vm_state_def get_vm_info_def Let_def split: if_splits sum.splits option.splits)

lemma clean_abort_query:
  assumes "covered c" and "c1 = c \<or> (\<exists>e. c1 = emit e c \<and> \<not> is_Call e \<and> \<not> is_Write e)"
  shows "clean_abort c (r, c1)"
proof -
  from assms(2) show ?thesis
  proof
    assume "c1 = c"
    then show ?thesis using assms(1) by (simp add: clean_abort_refl)
  next
    assume "\<exists>e. c1 = emit e c \<and> \<not> is_Call e \<and> \<not> is_Write e"
    then obtain e where e: "c1 = emit e c" "\<not> is_Call e" "\<not> is_Write e" by blast
    then have "\<not> failed e" by (cases e) simp_all
    then show ?thesis unfolding e(1) using assms(1) e(3) by (intro clean_abort_event)
  qed
qed

lemma query_keeps:
  assumes "c1 = c \<or> (\<exists>e. c1 = emit e c \<and> \<not> is_Call e \<and> \<not> is_Write e)"
  shows "self c1 = self c" and "store c1 = store c" and "covered c1 = covered c"
  using assms by auto

lemma check_output_query:
  assumes "check_output be args c = (r, c1)"
  shows "c1 = c \<or> (\<exists>e. c1 = emit e c \<and> \<not> is_Call e \<and> \<not> is_Write e)"
  using assms by (cases rule: check_output_cases) auto

lemma get_vm_state_query:
  assumes "get_vm_state be c = (r, c1)"
  shows "c1 = c \<or> (\<exists>e. c1 = emit e c \<and> \<not> is_Call e \<and> \<not> is_Write e)"
  using assms by (cases rule: get_vm_state_cases) auto

lemma resolve_base_image_query:
  assumes "resolve_base_image be m defn c = (r, c1)"
  shows "c1 = c \<or> (\<exists>e. c1 = emit e c \<and> \<not> is_Call e \<and> \<not> is_Write e)"
proof (cases "base_image defn = ''drv''")
  case False
  then show ?thesis using assms by (simp add: resolve_base_image_def)
next
  case True
  obtain r0 c0 where co: "check_output be
      (lit [''nix-build'', ''-I'', ''charon='' @ expr_path m, ''--show-trace'',
            ''<charon/eval-machine-info.nix>'',
            ''--arg'', ''networkExprs'', ''[ '' @ join '' '' (nix_exprs m) @ '' ]'',
            ''-A'', ''nodes.'' @ name m @ ''.config.deployment.virtualbox.baseImage'',
            ''-o'', tempdir m @ ''/vbox-image-'' @ name m]) c = (r0, c0)"
    by (cases "check_output be
      (lit [''nix-build'', ''-I'', ''charon='' @ expr_path m, ''--show-trace'',
            ''<charon/eval-machine-info.nix>'',
            ''--arg'', ''networkExprs'', ''[ '' @ join '' '' (nix_exprs m) @ '' ]'',
            ''-A'', ''nodes.'' @ name m @ ''.config.deployment.virtualbox.baseImage'',
            ''-o'', tempdir m @ ''/vbox-image-'' @ name m]) c")
  have "c1 = c0"
    using assms True co by (auto simp: resolve_base_image_def split: sum.splits exn.splits)
  then show ?thesis using check_output_query [OF co] by simp
qed

lemma isdir_query:
  assumes "isdir be p c = (b, c1)"
  shows "c1 = c \<or> (\<exists>e. c1 = emit e c \<and> \<not> is_Call e \<and> \<not> is_Write e)"
  using assms by (auto simp: isdir_def Let_def)

lemma clean_abort_after_query:
  assumes "c1 = c \<or> (\<exists>e. c1 = emit e c \<and> \<not> is_Call e \<and> \<not> is_Write e)"
    and "covered c"
    and "covered c1 \<Longrightarrow> store c1 = store c \<Longrightarrow> self c1 = self c \<Longrightarrow> clean_abort c1 rc"
  shows "clean_abort c rc"
proof -
  have "clean_abort c (Returned, c1)"
    using assms(2) assms(1) by (rule clean_abort_query)
  moreover have "clean_abort c1 rc"
    using query_keeps [OF assms(1)] assms(2) by (intro assms(3)) simp_all
  ultimately show ?thesis by (rule clean_abort_trans)
qed

lemma clone_disk_clean:
  assumes "covered c"
  shows "clean_abort c (clone_disk be m defn c)"
proof (cases "truthy (disk (self c))")
  case True
  then show ?thesis using assms by (simp add: clone_disk_def clean_abort_refl)
next
  case nd: False
  then have u: "step_unset ''clonehd'' (store c)"
    using assms by (simp add: step_unset_def covered_def)
  show ?thesis
  proof (cases "home m")
    case None
    then show ?thesis using nd assms by (simp add: clone_disk_def clean_abort_refl)
  next
    case (Some h)
    show ?thesis
    proof (cases "vm_id (self c)")
      case None
      then show ?thesis using nd Some assms by (simp add: clone_disk_def clean_abort_refl)
    next
      case v: (Some v)
      show ?thesis
        unfolding clone_disk_def Let_def
        apply (simp only: nd Some v if_True simp_thms option.case)
        apply (split prod.split, intro allI impI)
        apply (frule isdir_query)
        apply (erule clean_abort_after_query)
         apply (rule assms)
        apply (split bool.split, intro conjI impI)
         prefer 2
         apply (erule clean_abort_refl)
        apply (split prod.split, intro allI impI)
        apply (frule resolve_base_image_query)
        apply (erule clean_abort_after_query)
         apply assumption
        apply (split sum.split, intro conjI allI impI)
         apply (erule clean_abort_refl)
        apply (rule clean_abort_command [where sub = "''clonehd''"])
           apply assumption
          apply (erule subcommand_lit)
         apply (simp only: u)
        apply (rule clean_abort_write)
        done
    qed
  qed
qed


lemma covered_started: "covered c \<Longrightarrow> covered (c\<lparr>self := (self c)\<lparr>started := True\<rparr>\<rparr>)"
  by (simp add: covered_def)

lemma check_running_clean:
  assumes "covered c"
  shows "clean_abort c (check_running be check c)"
proof (cases check)
  case False
  then show ?thesis using assms by (simp add: check_running_def clean_abort_refl)
next
  case True
  show ?thesis
    unfolding check_running_def Let_def
    apply (simp only: True if_True)
    apply (split prod.split, intro allI impI)
    apply (frule get_vm_state_query)
    apply (erule clean_abort_after_query)
     apply (rule assms)
    apply (split sum.split, intro conjI allI impI)
     apply (erule clean_abort_refl)
    apply (split if_split, intro conjI impI)
     apply (rule clean_abort_self)
     apply (erule covered_started)
    apply (rule clean_abort_step [where ?c1.0 = "log ''VirtualBox VM went down, restarting...'' c1" for c1])
     apply (simp only: log_def)
     apply (rule clean_abort_event)
       apply assumption
      apply simp
     apply simp
    apply (rule clean_abort_write)
    done
qed

lemma ensure_key_pair_clean:
  assumes "covered c"
  shows "clean_abort c (ensure_key_pair be c)"
proof (cases "truthy (client_private_key (self c))")
  case True
  then show ?thesis using assms by (simp add: ensure_key_pair_def clean_abort_refl)
next
  case False
  obtain priv pub where kp: "key_pair be (count is_CreateKeyPair (trace c)) = (priv, pub)"
    by (cases "key_pair be (count is_CreateKeyPair (trace c))")
  have 1: "clean_abort c (Returned, emit (CreateKeyPair priv pub) c)"
    using assms by (intro clean_abort_event) simp_all
  have 2: "clean_abort (emit (CreateKeyPair priv pub) c)
      (Returned, (emit (CreateKeyPair priv pub) c)
         \<lparr>self := (self (emit (CreateKeyPair priv pub) c))
            \<lparr>client_private_key := Some priv, client_public_key := Some pub\<rparr>\<rparr>)"
    using assms by (intro clean_abort_self) (simp add: covered_def)
  show ?thesis
    using False kp clean_abort_trans [OF 1 2]
    by (simp add: ensure_key_pair_def create_key_pair_def)
qed

lemma u_start_clean:
  assumes "covered c" and "\<not> started (self c)"
  shows "clean_abort c (u_start be hdless c)"
proof -
  have u: "step_unset ''guestproperty'' (store c)" "step_unset ''startvm'' (store c)"
    using assms by (simp_all add: step_unset_def covered_def)
  show ?thesis
    unfolding u_start_def
    apply (rule clean_abort_command [where sub = "''guestproperty''"])
       apply (rule assms)
      apply (erule subcommand_lit_append)
     apply (rule u)
    apply (rule clean_abort_command [where sub = "''guestproperty''"])
       apply assumption
      apply (erule subcommand_lit_append)
     apply (simp only: u)
    apply (rule clean_abort_command [where sub = "''startvm''"])
       apply assumption
      apply (erule subcommand_lit_append)
     apply (simp only: u)
    apply (rule clean_abort_write)
    done
qed

lemma start_step_clean:
  assumes "covered c"
  shows "clean_abort c (start_step be defn c)"
proof (cases "started (self c)")
  case True
  then show ?thesis using assms by (simp add: start_step_def clean_abort_refl)
next
  case False
  have u: "step_unset ''modifyvm'' (store c)"
    using assms False by (simp add: step_unset_def covered_def)
  show ?thesis
    unfolding start_step_def
    apply (simp only: False if_True simp_thms)
    apply (rule clean_abort_command [where sub = "''modifyvm''"])
       apply (rule assms)
      apply (erule subcommand_lit_append)
     apply (rule u)
    apply (rule u_start_clean)
     apply assumption
    apply (simp only: False simp_thms)
    done
qed

lemma address_found_clean:
  "clean_abort c (r, write_state (known_hosts_remove a (c\<lparr>self := (self c)\<lparr>ipv4 := Some a\<rparr>\<rparr>)))"
  by (intro clean_abortI [of _ _ "[KnownHostsRemove a, Write ((self c)\<lparr>ipv4 := Some a\<rparr>)]"])
     (simp_all add: covered_def)

lemma wait_for_ip_clean: "covered c \<Longrightarrow> clean_abort c (wait_for_ip n be c)"
proof (induction n arbitrary: c)
  case 0
  then show ?case by (simp add: clean_abort_refl)
next
  case (Suc n)
  show ?case
    unfolding wait_for_ip.simps Let_def
    apply (split prod.split, intro allI impI)
    apply (frule check_output_query)
    apply (erule clean_abort_after_query)
     apply (rule Suc.prems)
    apply (split sum.split, intro conjI allI impI)
     apply (split exn.split, intro conjI allI impI; erule clean_abort_refl)
    apply (split if_split, intro conjI impI)
     apply (rule address_found_clean)
    apply (rule clean_abort_step [where ?c1.0 = "sleep 1 c1" for c1])
     apply (simp only: sleep_def)
     apply (rule clean_abort_event)
       apply assumption
      apply simp
     apply simp
    apply (erule Suc.IH)
    done
qed

lemma discover_ip_clean: "covered c \<Longrightarrow> clean_abort c (discover_ip n be check c)"
  by (simp add: discover_ip_def wait_for_ip_clean clean_abort_refl)

lemma create_clean:
  assumes "covered c"
  shows "clean_abort c (create fuel be m defn check c)"
  unfolding create_def
  by (intro clean_abort_and_then create_vm_clean clone_disk_clean attach_disk_clean
      check_running_clean ensure_key_pair_clean start_step_clean discover_ip_clean assms)

text \<open>
  C3. Take any run of \<open>create\<close> entered with the in-memory record equal to the
  durable one. Whenever a command of the run (\<^verbatim>\<open>createvm\<close>, \<^verbatim>\<open>clonehd\<close>,
  \<^verbatim>\<open>storagectl\<close>, \<^verbatim>\<open>storageattach\<close>, \<^verbatim>\<open>modifyvm\<close>, \<^verbatim>\<open>guestproperty set\<close>,
  \<^verbatim>\<open>startvm\<close>) exits with a nonzero status, it is the last event of the run:
  \<open>create\<close> raises, nothing is issued or written after it, the durable record is
  the one of the last write before the command, and the field that guards the
  command's block is unset in it.
\<close>

theorem create_aborts_on_failed_command:
  assumes "create fuel be m defn check c = (r, c')" and "store c = self c"
  shows "\<exists>evs. trace c' = trace c @ evs \<and> store c' = last_write (store c) evs
           \<and> (\<forall>pre a st post. evs = pre @ Call a st # post \<and> st \<noteq> 0 \<longrightarrow>
                 post = [] \<and> (\<exists>msg. r = Raised (Exception msg))
                 \<and> store c' = last_write (store c) pre
                 \<and> step_unset (subcommand a) (store c'))"
proof -
  have "covered c" using assms(2) by (simp add: covered_def)
  then have "clean_abort c (r, c')"
    using create_clean [of c fuel be m defn check] assms(1) by simp
  then obtain evs where evs: "trace c' = trace c @ evs" "store c' = last_write (store c) evs"
    "quiet evs"
    "evs \<noteq> [] \<and> failed (last evs) \<longrightarrow>
       (\<exists>msg. r = Raised (Exception msg))
       \<and> (\<exists>a st. last evs = Call a st \<and> step_unset (subcommand a) (store c'))"
    by (auto simp: clean_abort_def)
  have "post = [] \<and> (\<exists>msg. r = Raised (Exception msg))
        \<and> store c' = last_write (store c) pre \<and> step_unset (subcommand a) (store c')"
    if d: "evs = pre @ Call a st # post" and nz: "st \<noteq> 0" for pre a st post
  proof -
    have p: "post = []"
      using evs(3) nz unfolding d by (intro quiet_failed_last [of pre "Call a st"]) simp_all
    then have l: "last evs = Call a st" "evs \<noteq> []" using d by simp_all
    then have "(\<exists>msg. r = Raised (Exception msg)) \<and> step_unset (subcommand a) (store c')"
      using evs(4) nz by auto
    moreover have "store c' = last_write (store c) pre"
      using evs(2) d p by (simp add: last_write_append)
    ultimately show ?thesis using p by simp
  qed
  then show ?thesis using evs(1,2) by blast
qed

theorem create_aborts_on_failed_command_witness:
  "store (ex_conf init_state) = self (ex_conf init_state)
   \<and> fst (create 1 (ex_failing 1) ex_machine ex_defn False (ex_conf init_state))
       = Raised (Exception ''unable to copy VirtualBox disk'')
   \<and> trace (snd (create 1 (ex_failing 1) ex_machine ex_defn False (ex_conf init_state)))
       = [Log ''creating VirtualBox VM...'',
          Call [''VBoxManage'', ''createvm'', ''--name'', ''charon-u1-web'', ''--ostype'',
                ''Linux'', ''--register''] 0,
          Write (init_state\<lparr>vm_id := Some ''charon-u1-web''\<rparr>),
          IsDir ''/home/alice/VirtualBox VMs/charon-u1-web'' True,
          Call [''VBoxManage'', ''clonehd'', ''/images/base.vdi'',
                ''/home/alice/VirtualBox VMs/charon-u1-web/disk1.vdi''] 1]
   \<and> store (snd (create 1 (ex_failing 1) ex_machine ex_defn False (ex_conf init_state)))
       = init_state\<lparr>vm_id := Some ''charon-u1-web''\<rparr>
   \<and> step_unset ''clonehd''
        (store (snd (create 1 (ex_failing 1) ex_machine ex_defn False (ex_conf init_state))))"
  using create_aborts_on_failed_command
    [of 1 "ex_failing 1" ex_machine ex_defn False "ex_conf init_state"
        "fst (create 1 (ex_failing 1) ex_machine ex_defn False (ex_conf init_state))"
        "snd (create 1 (ex_failing 1) ex_machine ex_defn False (ex_conf init_state))"]
  by (simp add: create_def create_vm_def clone_disk_def resolve_base_image_def and_then_def
      subprocess_call_def isdir_def count_def Let_def ex_failing_def ex_backend_def ex_machine_def
      ex_defn_def ex_conf_def init_state_def truthy_def step_unset_def)


section \<open>Evaluation on sample inputs\<close>

lemmas model_defs =
  create_def create_vm_def clone_disk_def resolve_base_image_def attach_disk_def
  check_running_def ensure_key_pair_def create_key_pair_def start_step_def u_start_def
  discover_ip_def and_then_def subprocess_call_def check_output_def isdir_def
  get_vm_state_def get_vm_info_def split_eq_def rstrip_def is_space_def
  destroy_def power_off_if_running_def unregister_vm_def start_def warn_def
  count_def Let_def truthy_def

lemmas example_defs =
  ex_backend_def ex_failing_def ex_machine_def ex_defn_def ex_conf_def ex_provisioned_def
  ex_stopped_def ex_no_keys_def ex_partial_def ex_shutting_down_def init_state_def

section \<open>The start block\<close>

lemma start_step_trace:
  assumes "\<not> started (self c)" and "vm_id (self c) = Some v"
    and "client_public_key (self c) = Some key" and "start_step be defn c = (r, c')"
  shows "\<exists>j. 1 \<le> j \<and> j \<le> 5
           \<and> trace c' = trace c @ take j (start_events be defn (count is_Call (trace c)) v key (self c))
           \<and> list_all (\<lambda>e. \<not> failed e)
                 (take (j - 1) (start_events be defn (count is_Call (trace c)) v key (self c)))
           \<and> (if j = 5
               then r = Returned \<and> self c' = (self c)\<lparr>started := True\<rparr> \<and> store c' = self c'
               else (\<exists>msg. r = Raised (Exception msg))
                    \<and> failed (start_events be defn (count is_Call (trace c)) v key (self c) ! (j - 1))
                    \<and> self c' = self c \<and> store c' = store c)"
proof -
  define n where "n = count is_Call (trace c)"
  consider (f0) "call_status be n \<noteq> 0"
    | (f1) "call_status be n = 0" "call_status be (n + 1) \<noteq> 0"
    | (f2) "call_status be n = 0" "call_status be (n + 1) = 0" "call_status be (n + 2) \<noteq> 0"
    | (f3) "call_status be n = 0" "call_status be (n + 1) = 0" "call_status be (n + 2) = 0"
        "call_status be (n + 3) \<noteq> 0"
    | (ok) "call_status be n = 0" "call_status be (n + 1) = 0" "call_status be (n + 2) = 0"
        "call_status be (n + 3) = 0"
    by blast
  then show ?thesis
  proof cases
    case f0
    then show ?thesis
      using assms
      by (intro exI [of _ 1])
         (auto simp: start_step_def subprocess_call_def Let_def lit_def n_def start_events_def eval_nat_numeral)
  next
    case f1
    then show ?thesis
      using assms
      by (intro exI [of _ 2])
         (auto simp: start_step_def u_start_def subprocess_call_def Let_def lit_def n_def start_events_def eval_nat_numeral)
  next
    case f2
    then show ?thesis
      using assms
      by (intro exI [of _ 3])
         (auto simp: start_step_def u_start_def subprocess_call_def Let_def lit_def n_def start_events_def eval_nat_numeral)
  next
    case f3
    then show ?thesis
      using assms
      by (intro exI [of _ 4])
         (auto simp: start_step_def u_start_def subprocess_call_def Let_def lit_def n_def start_events_def eval_nat_numeral)
  next
    case ok
    then show ?thesis
      using assms
      by (intro exI [of _ 5])
         (auto simp: start_step_def u_start_def subprocess_call_def Let_def lit_def n_def start_events_def eval_nat_numeral)
  qed
qed

text \<open>
  C8 (amended). When the start block of \<open>create\<close> runs on a record with a resource
  id and a public key, its events are an initial part of this sequence, in this
  order: \<^verbatim>\<open>modifyvm\<close> (memory and network adapters), \<^verbatim>\<open>guestproperty set\<close>
  clearing the address fact, \<^verbatim>\<open>guestproperty set\<close> publishing the public key,
  \<^verbatim>\<open>startvm\<close> with \<^verbatim>\<open>--type headless\<close> exactly when the definition says so, and
  the write of \<open>started = True\<close>. Each event happens only after the commands before
  it exited with status 0; the block returns exactly when all five happened, and
  otherwise raises at the first failed command with the record untouched.
\<close>

theorem start_step_order:
  assumes "\<not> started (self c)" and "vm_id (self c) = Some v"
    and "client_public_key (self c) = Some key" and "start_step be defn c = (r, c')"
  shows "\<exists>j. 1 \<le> j \<and> j \<le> 5
           \<and> trace c' = trace c @ take j (start_events be defn (count is_Call (trace c)) v key (self c))
           \<and> list_all (\<lambda>e. \<not> failed e)
                 (take (j - 1) (start_events be defn (count is_Call (trace c)) v key (self c)))
           \<and> (if j = 5
               then r = Returned \<and> self c' = (self c)\<lparr>started := True\<rparr> \<and> store c' = self c'
               else (\<exists>msg. r = Raised (Exception msg))
                    \<and> failed (start_events be defn (count is_Call (trace c)) v key (self c) ! (j - 1))
                    \<and> self c' = self c \<and> store c' = store c)"
  using assms by (rule start_step_trace)

theorem start_step_order_witness:
  "\<not> started (self (ex_conf ex_stopped))
   \<and> vm_id (self (ex_conf ex_stopped)) = Some ''charon-u1-web''
   \<and> client_public_key (self (ex_conf ex_stopped)) = Some ''PUBLIC''
   \<and> fst (start_step (ex_failing 2) ex_defn (ex_conf ex_stopped))
       = Raised (Exception ''unable to client key of VirtualBox VM'')
   \<and> trace (snd (start_step (ex_failing 2) ex_defn (ex_conf ex_stopped)))
       = take 3 (start_events (ex_failing 2) ex_defn 0 ''charon-u1-web'' ''PUBLIC'' ex_stopped)"
  using start_step_order
    [of "ex_conf ex_stopped" "''charon-u1-web''" "''PUBLIC''" "ex_failing 2" ex_defn
        "fst (start_step (ex_failing 2) ex_defn (ex_conf ex_stopped))"
        "snd (start_step (ex_failing 2) ex_defn (ex_conf ex_stopped))"]
  by (simp add: model_defs example_defs start_events_def lit_def)

text \<open>
  C8 as stated fails: on a provisioned, stopped machine every command succeeds, and
  the first command of the start block is \<^verbatim>\<open>modifyvm\<close>; the address fact is
  cleared only after it.
\<close>

theorem start_order_counterexample:
  "trace (snd (create 1 (ex_backend ''poweroff'') ex_machine ex_defn False (ex_conf ex_stopped)))
     = [Call [''VBoxManage'', ''modifyvm'', ''charon-u1-web'', ''--memory'', ''512'', ''--vram'', ''10'',
              ''--nictype1'', ''virtio'', ''--nictype2'', ''virtio'', ''--nic2'', ''hostonly'',
              ''--hostonlyadapter2'', ''vboxnet0'', ''--nestedpaging'', ''off''] 0,
        Call [''VBoxManage'', ''guestproperty'', ''set'', ''charon-u1-web'',
              ''/VirtualBox/GuestInfo/Net/1/V4/IP'', []] 0,
        Call [''VBoxManage'', ''guestproperty'', ''set'', ''charon-u1-web'',
              ''/VirtualBox/GuestInfo/Charon/ClientPublicKey'', ''PUBLIC''] 0,
        Call [''VBoxManage'', ''startvm'', ''charon-u1-web'', ''--type'', ''headless''] 0,
        Write ex_provisioned]
   \<and> is_cmd ''modifyvm''
        (hd (trace (snd (create 1 (ex_backend ''poweroff'') ex_machine ex_defn False
                          (ex_conf ex_stopped)))))"
  by (simp add: model_defs example_defs lit_def)

section \<open>The credential block\<close>

text \<open>
  C6. The key pair is generated and kept in the in-memory record, but the block
  (lines 233-234) does not write: on a record without keys whose \<^verbatim>\<open>modifyvm\<close>
  fails, \<open>create\<close> raises with the generated keys in memory and none in the
  durable record. When every command succeeds, the first write after the key
  generation comes after \<^verbatim>\<open>modifyvm\<close>, both \<^verbatim>\<open>guestproperty set\<close> and
  \<^verbatim>\<open>startvm\<close>.
\<close>

theorem create_key_pair_not_persisted:
  "fst (create 1 (ex_failing 0) ex_machine ex_defn False (ex_conf ex_no_keys))
     = Raised (Exception ''unable to modify VirtualBox VM'')
   \<and> trace (snd (create 1 (ex_failing 0) ex_machine ex_defn False (ex_conf ex_no_keys)))
     = [CreateKeyPair ''PRIVATE'' ''PUBLIC'',
        Call [''VBoxManage'', ''modifyvm'', ''charon-u1-web'', ''--memory'', ''512'', ''--vram'', ''10'',
              ''--nictype1'', ''virtio'', ''--nictype2'', ''virtio'', ''--nic2'', ''hostonly'',
              ''--hostonlyadapter2'', ''vboxnet0'', ''--nestedpaging'', ''off''] 1]
   \<and> client_private_key (self (snd (create 1 (ex_failing 0) ex_machine ex_defn False
                                        (ex_conf ex_no_keys)))) = Some ''PRIVATE''
   \<and> client_public_key (self (snd (create 1 (ex_failing 0) ex_machine ex_defn False
                                       (ex_conf ex_no_keys)))) = Some ''PUBLIC''
   \<and> store (snd (create 1 (ex_failing 0) ex_machine ex_defn False (ex_conf ex_no_keys)))
     = ex_no_keys
   \<and> map is_Write
        (take 5 (trace (snd (create 0 (ex_backend ''poweroff'') ex_machine ex_defn False
                              (ex_conf ex_no_keys)))))
     = [False, False, False, False, False]"
  by (simp add: model_defs example_defs lit_def)

section \<open>Address discovery\<close>

lemma rstrip_last: "rstrip s \<noteq> [] \<Longrightarrow> \<not> is_space (last (rstrip s))"
proof -
  assume ne: "rstrip s \<noteq> []"
  then have d: "dropWhile is_space (rev s) \<noteq> []" by (simp add: rstrip_def)
  have "last (rstrip s) = hd (dropWhile is_space (rev s))"
    using d by (simp add: rstrip_def last_rev)
  then show ?thesis using d hd_dropWhile [of is_space "rev s"] by simp
qed

lemma value_prefix_nonempty:
  assumes "take 7 (rstrip out) = ''Value: ''"
  shows "drop 7 (rstrip out) \<noteq> []"
proof
  assume e: "drop 7 (rstrip out) = []"
  have "rstrip out = take 7 (rstrip out) @ drop 7 (rstrip out)" by simp
  then have r: "rstrip out = ''Value: ''" using assms e by simp
  then have "\<not> is_space (last ''Value: '')" using rstrip_last [of out] by simp
  then show False by (simp add: is_space_def)
qed

lemma wait_for_ip_found:
  assumes "wait_for_ip n be c = (Returned, c')"
  shows "\<exists>addr polls. addr \<noteq> [] \<and> self c' = (self c)\<lparr>ipv4 := Some addr\<rparr> \<and> store c' = self c'
           \<and> trace c' = trace c @ polls @ [KnownHostsRemove addr, Write (self c')]
           \<and> list_all (\<lambda>e. \<not> is_KnownHostsRemove e \<and> \<not> is_Write e \<and> \<not> is_Call e) polls"
  using assms
proof (induction n arbitrary: c)
  case 0
  then show ?case by simp
next
  case (Suc n)
  obtain r c1 where co: "check_output be
       (lit [''VBoxManage'', ''guestproperty'', ''get''] @ [vm_id (self c)]
        @ lit [''/VirtualBox/GuestInfo/Net/1/V4/IP'']) c = (r, c1)"
    by (cases "check_output be
       (lit [''VBoxManage'', ''guestproperty'', ''get''] @ [vm_id (self c)]
        @ lit [''/VirtualBox/GuestInfo/Net/1/V4/IP'']) c")
  from co show ?case
  proof (cases rule: check_output_cases)
    case type_error
    then show ?thesis using Suc.prems co by simp
  next
    case (ran a st out)
    show ?thesis
    proof (cases "st \<noteq> 0")
      case True
      then show ?thesis using Suc.prems co ran by simp
    next
      case False
      then have r: "r = Inr out" using ran by simp
      show ?thesis
      proof (cases "take 7 (rstrip out) = ''Value: ''")
        case True
        have c': "c' = write_state (known_hosts_remove (drop 7 (rstrip out))
                         (c1\<lparr>self := (self c1)\<lparr>ipv4 := Some (drop 7 (rstrip out))\<rparr>\<rparr>))"
          using Suc.prems co r True by (simp add: Let_def)
        show ?thesis
          using value_prefix_nonempty [OF True]
          by (intro exI [of _ "drop 7 (rstrip out)"] exI [of _ "[CheckOutput a st out]"])
             (simp add: c' ran)
      next
        case nf: False
        have "wait_for_ip n be (sleep 1 c1) = (Returned, c')"
          using Suc.prems co r nf by (simp add: Let_def)
        from Suc.IH [OF this] obtain addr polls where
          ih: "addr \<noteq> []" "self c' = (self (sleep 1 c1))\<lparr>ipv4 := Some addr\<rparr>" "store c' = self c'"
            "trace c' = trace (sleep 1 c1) @ polls @ [KnownHostsRemove addr, Write (self c')]"
            "list_all (\<lambda>e. \<not> is_KnownHostsRemove e \<and> \<not> is_Write e \<and> \<not> is_Call e) polls"
          by blast
        show ?thesis
          using ih
          by (intro exI [of _ addr] exI [of _ "CheckOutput a st out # Sleep 1 # polls"])
             (simp add: ran)
      qed
    qed
  qed
qed




section \<open>Resuming create\<close>

lemma appends_query:
  assumes "c1 = c \<or> (\<exists>e. c1 = emit e c \<and> \<not> is_Call e \<and> \<not> is_Write e)"
  shows "appends (\<lambda>e. \<not> is_Call e) c (r, c1)"
  using assms by (auto simp: appends_def)

lemma appends_emit: "P e \<Longrightarrow> appends P c (r, emit e c)"
  by (simp add: appends_def)

lemma appends_self: "appends P c (r, c\<lparr>self := s\<rparr>)"
  by (simp add: appends_def)

lemma appends_step: "appends P c (r1, c1) \<Longrightarrow> appends P c1 rc \<Longrightarrow> appends P c rc"
  by (rule appends_trans)

lemma check_running_appends: "appends (\<lambda>e. \<not> is_Call e) c (check_running be check c)"
proof (cases check)
  case False
  then show ?thesis by (simp add: check_running_def appends_refl)
next
  case True
  obtain r c1 where g: "get_vm_state be c = (r, c1)" by (cases "get_vm_state be c")
  have 1: "appends (\<lambda>e. \<not> is_Call e) c (Returned, c1)"
    using get_vm_state_query [OF g] by (rule appends_query)
  have 2: "appends (\<lambda>e. \<not> is_Call e) c1 (check_running be check c)"
    using True g by (auto simp: check_running_def appends_def Let_def split: sum.splits)
  from 1 2 show ?thesis by (rule appends_trans)
qed

lemma ensure_key_pair_appends: "appends (\<lambda>e. \<not> is_Call e) c (ensure_key_pair be c)"
  by (auto simp: ensure_key_pair_def create_key_pair_def appends_def split: prod.splits)

lemma wait_for_ip_appends: "appends (\<lambda>e. \<not> is_Call e) c (wait_for_ip n be c)"
proof (induction n arbitrary: c)
  case 0
  then show ?case by (simp add: appends_refl)
next
  case (Suc n)
  obtain r c1 where co: "check_output be
       (lit [''VBoxManage'', ''guestproperty'', ''get''] @ [vm_id (self c)]
        @ lit [''/VirtualBox/GuestInfo/Net/1/V4/IP'']) c = (r, c1)"
    by (cases "check_output be
       (lit [''VBoxManage'', ''guestproperty'', ''get''] @ [vm_id (self c)]
        @ lit [''/VirtualBox/GuestInfo/Net/1/V4/IP'']) c")
  have 1: "appends (\<lambda>e. \<not> is_Call e) c (Returned, c1)"
    using check_output_query [OF co] by (rule appends_query)
  have 3: "appends (\<lambda>e. \<not> is_Call e) c1 (Returned, sleep 1 c1)"
    by (simp add: appends_def)
  have 2: "appends (\<lambda>e. \<not> is_Call e) c1 (wait_for_ip (Suc n) be c)"
    using co appends_trans [OF 3 Suc.IH [of "sleep 1 c1"]]
    by (auto simp: Let_def appends_refl split: sum.splits exn.splits) (simp_all add: appends_def)
  from 1 2 show ?case by (rule appends_trans)
qed

lemma discover_ip_appends: "appends (\<lambda>e. \<not> is_Call e) c (discover_ip n be check c)"
  by (simp add: discover_ip_def wait_for_ip_appends appends_refl)

lemma u_start_appends:
  "appends (\<lambda>e. is_cmd ''guestproperty'' e \<or> is_cmd ''startvm'' e \<or> is_Write e) c (u_start be h c)"
  by (auto simp: u_start_def appends_def subprocess_call_def Let_def split: option.splits)

lemma start_step_appends:
  "appends (\<lambda>e. is_cmd ''modifyvm'' e \<or> is_cmd ''guestproperty'' e \<or> is_cmd ''startvm'' e \<or> is_Write e)
     c (start_step be defn c)"
proof (cases "started (self c)")
  case True
  then show ?thesis by (simp add: start_step_def appends_refl)
next
  case False
  obtain r c1 where sc: "subprocess_call be
         (lit [''VBoxManage'', ''modifyvm''] @ [vm_id (self c)]
          @ lit [''--memory'', memory_size defn, ''--vram'', ''10'',
                 ''--nictype1'', ''virtio'', ''--nictype2'', ''virtio'',
                 ''--nic2'', ''hostonly'', ''--hostonlyadapter2'', ''vboxnet0'',
                 ''--nestedpaging'', ''off'']) c = (r, c1)"
    by (cases "subprocess_call be
         (lit [''VBoxManage'', ''modifyvm''] @ [vm_id (self c)]
          @ lit [''--memory'', memory_size defn, ''--vram'', ''10'',
                 ''--nictype1'', ''virtio'', ''--nictype2'', ''virtio'',
                 ''--nic2'', ''hostonly'', ''--hostonlyadapter2'', ''vboxnet0'',
                 ''--nestedpaging'', ''off'']) c")
  let ?P = "\<lambda>e. is_cmd ''modifyvm'' e \<or> is_cmd ''guestproperty'' e \<or> is_cmd ''startvm'' e \<or> is_Write e"
  have 1: "appends ?P c (Returned, c1)"
    using sc by (cases rule: subprocess_call_cases) (auto simp: appends_def)
  have u: "appends ?P c1 (u_start be (headless defn) c1)"
    by (rule appends_mono [OF u_start_appends]) auto
  have 2: "appends ?P c1 (start_step be defn c)"
    using False sc u by (auto simp: start_step_def appends_refl split: sum.splits)
  from 1 2 show ?thesis by (rule appends_trans)
qed

text \<open>The blocks of \<open>create\<close> after the attachment of the disk.\<close>

lemma create_tail_appends:
  "appends (\<lambda>e. \<not> is_cmd ''createvm'' e \<and> \<not> is_cmd ''clonehd'' e) c
     (and_then (and_then (and_then (check_running be check c) (ensure_key_pair be))
        (start_step be defn)) (discover_ip fuel be check))"
proof -
  let ?P = "\<lambda>e. \<not> is_cmd ''createvm'' e \<and> \<not> is_cmd ''clonehd'' e"
  have nc: "\<And>e. \<not> is_Call e \<Longrightarrow> ?P e"
    by (case_tac e) simp_all
  have 1: "\<And>c. appends ?P c (check_running be check c)"
    by (rule appends_mono [OF check_running_appends]) (rule nc)
  have 2: "\<And>c. appends ?P c (ensure_key_pair be c)"
    by (rule appends_mono [OF ensure_key_pair_appends]) (rule nc)
  have 3: "\<And>c. appends ?P c (start_step be defn c)"
    by (rule appends_mono [OF start_step_appends]) (case_tac e; auto)
  have 4: "\<And>c. appends ?P c (discover_ip fuel be check c)"
    by (rule appends_mono [OF discover_ip_appends]) (rule nc)
  show ?thesis
    by (intro appends_and_then 1 2 3 4)
qed


text \<open>
  C2. On a record with a resource id and a disk path and with the disk not attached,
  \<open>create\<close> with \<open>check = False\<close> first creates the storage controller
  (\<^verbatim>\<open>storagectl\<close>) and, when that succeeded, attaches the disk
  (\<^verbatim>\<open>storageattach\<close>); nowhere in the run does it call \<^verbatim>\<open>createvm\<close> or
  \<^verbatim>\<open>clonehd\<close>.
\<close>

theorem create_resumes_at_attach:
  assumes "vm_id (self c) = Some v" and "v \<noteq> []" and "disk (self c) = Some d" and "d \<noteq> []"
    and "\<not> disk_attached (self c)" and "create fuel be m defn False c = (r, c')"
  shows "\<exists>rest. trace c' = trace c @
            Call [''VBoxManage'', ''storagectl'', v, ''--name'', ''SATA'', ''--add'', ''sata'',
                  ''--sataportcount'', ''2'', ''--bootable'', ''on'', ''--hostiocache'', ''on'']
                 (call_status be (count is_Call (trace c))) # rest
          \<and> (call_status be (count is_Call (trace c)) = 0 \<longrightarrow>
               (\<exists>rest'. rest =
                  Call [''VBoxManage'', ''storageattach'', v, ''--storagectl'', ''SATA'', ''--port'', ''0'',
                        ''--device'', ''0'', ''--type'', ''hdd'', ''--medium'', d]
                       (call_status be (count is_Call (trace c) + 1)) # rest'))
          \<and> list_all (\<lambda>e. \<not> is_cmd ''createvm'' e \<and> \<not> is_cmd ''clonehd'' e) rest"
proof -
  define n where "n = count is_Call (trace c)"
  define e1 where "e1 = Call [''VBoxManage'', ''storagectl'', v, ''--name'', ''SATA'', ''--add'', ''sata'',
                  ''--sataportcount'', ''2'', ''--bootable'', ''on'', ''--hostiocache'', ''on'']
                 (call_status be n)"
  define e2 where "e2 = Call [''VBoxManage'', ''storageattach'', v, ''--storagectl'', ''SATA'', ''--port'', ''0'',
                        ''--device'', ''0'', ''--type'', ''hdd'', ''--medium'', d]
                       (call_status be (n + 1))"
  define tail where "tail = (\<lambda>c. and_then (and_then (and_then (check_running be False c)
        (ensure_key_pair be)) (start_step be defn)) (discover_ip fuel be False))"
  have skip: "create fuel be m defn False c =
      and_then (and_then (and_then (and_then (attach_disk be c) (check_running be False))
        (ensure_key_pair be)) (start_step be defn)) (discover_ip fuel be False)"
    using assms(1-4) by (simp add: create_def create_vm_def clone_disk_def truthy_def and_then_simps)
  consider (f1) "call_status be n \<noteq> 0"
    | (f2) "call_status be n = 0" "call_status be (n + 1) \<noteq> 0"
    | (ok) "call_status be n = 0" "call_status be (n + 1) = 0"
    by blast
  then show ?thesis
  proof cases
    case f1
    then have "attach_disk be c =
        (Raised (Exception ''unable to create SATA controller on VirtualBox VM''), emit e1 c)"
      using assms(1,3,5) by (simp add: attach_disk_def subprocess_call_def lit_def e1_def n_def Let_def)
    then have "c' = emit e1 c"
      using assms(6) skip by (simp add: and_then_simps)
    then show ?thesis
      using f1 by (intro exI [of _ "[]"]) (simp add: e1_def n_def)
  next
    case f2
    then have "attach_disk be c =
        (Raised (Exception ''unable to attach disk to VirtualBox VM''), emit e2 (emit e1 c))"
      using assms(1,3,5)
      by (simp add: attach_disk_def subprocess_call_def lit_def e1_def e2_def n_def Let_def)
    then have "c' = emit e2 (emit e1 c)"
      using assms(6) skip by (simp add: and_then_simps)
    then show ?thesis
      using f2 by (intro exI [of _ "[e2]"]) (simp add: e1_def e2_def n_def)
  next
    case ok
    define c3 where "c3 = write_state ((emit e2 (emit e1 c))\<lparr>self := (self c)\<lparr>disk_attached := True\<rparr>\<rparr>)"
    have "attach_disk be c = (Returned, c3)"
      using ok assms(1,3,5)
      by (simp add: attach_disk_def subprocess_call_def lit_def e1_def e2_def n_def c3_def Let_def)
    then have "tail c3 = (r, c')"
      using assms(6) skip by (simp add: and_then_simps tail_def)
    moreover have "appends (\<lambda>e. \<not> is_cmd ''createvm'' e \<and> \<not> is_cmd ''clonehd'' e) c3 (tail c3)"
      unfolding tail_def by (rule create_tail_appends)
    ultimately obtain evs where evs: "trace c' = trace c3 @ evs"
      "list_all (\<lambda>e. \<not> is_cmd ''createvm'' e \<and> \<not> is_cmd ''clonehd'' e) evs"
      by (auto simp: appends_def)
    show ?thesis
      using ok evs
      by (intro exI [of _ "e2 # Write ((self c)\<lparr>disk_attached := True\<rparr>) # evs"])
         (simp add: c3_def e1_def e2_def n_def)
  qed
qed

theorem create_resumes_at_attach_witness:
  "vm_id (self (ex_conf ex_partial)) = Some ''charon-u1-web'' \<and> ''charon-u1-web'' \<noteq> []
   \<and> disk (self (ex_conf ex_partial)) = Some ''/home/alice/VirtualBox VMs/charon-u1-web/disk1.vdi''
   \<and> ''/home/alice/VirtualBox VMs/charon-u1-web/disk1.vdi'' \<noteq> []
   \<and> \<not> disk_attached (self (ex_conf ex_partial))
   \<and> take 3 (trace (snd (create 0 (ex_backend ''poweroff'') ex_machine ex_defn False
                              (ex_conf ex_partial))))
       = [Call [''VBoxManage'', ''storagectl'', ''charon-u1-web'', ''--name'', ''SATA'', ''--add'', ''sata'',
                ''--sataportcount'', ''2'', ''--bootable'', ''on'', ''--hostiocache'', ''on''] 0,
          Call [''VBoxManage'', ''storageattach'', ''charon-u1-web'', ''--storagectl'', ''SATA'',
                ''--port'', ''0'', ''--device'', ''0'', ''--type'', ''hdd'', ''--medium'',
                ''/home/alice/VirtualBox VMs/charon-u1-web/disk1.vdi''] 0,
          Write (ex_partial\<lparr>disk_attached := True\<rparr>)]
   \<and> list_all (\<lambda>e. \<not> is_cmd ''createvm'' e \<and> \<not> is_cmd ''clonehd'' e)
        (trace (snd (create 0 (ex_backend ''poweroff'') ex_machine ex_defn False
                       (ex_conf ex_partial))))"
  using create_resumes_at_attach
    [of "ex_conf ex_partial" "''charon-u1-web''"
        "''/home/alice/VirtualBox VMs/charon-u1-web/disk1.vdi''" 0 "ex_backend ''poweroff''"
        ex_machine ex_defn
        "fst (create 0 (ex_backend ''poweroff'') ex_machine ex_defn False (ex_conf ex_partial))"
        "snd (create 0 (ex_backend ''poweroff'') ex_machine ex_defn False (ex_conf ex_partial))"]
  by (simp add: model_defs example_defs lit_def)

section \<open>destroy\<close>

lemma get_vm_state_eq:
  assumes "vm_id (self c) = Some v"
  shows "get_vm_state be c =
     (vm_state_reply (popen_lines be (count is_Popen (trace c))),
      emit (Popen [''VBoxManage'', ''showvminfo'', ''--machinereadable'', v]
             (popen_lines be (count is_Popen (trace c)))) c)"
  using assms
  by (simp add: get_vm_state_def get_vm_info_def vm_state_reply_def Let_def
      split: sum.splits option.splits)

text \<open>
  C9. When the three successive state queries of a run of \<open>destroy\<close> report
  \<^verbatim>\<open>running\<close>, then \<^verbatim>\<open>stopping\<close>, then \<^verbatim>\<open>poweroff\<close> (the backend's word for
  powered off) or \<^verbatim>\<open>aborted\<close>, and the loop is given room for its two polls, the
  run is exactly: the first query, one \<^verbatim>\<open>controlvm poweroff\<close>, the poll that sees
  \<^verbatim>\<open>stopping\<close>, a sleep, the poll that sees the final state, the settle sleep,
  and only then \<^verbatim>\<open>unregistervm --delete\<close>, whose status decides the outcome.
\<close>

theorem destroy_convergence:
  assumes "vm_id (self c) = Some v"
    and "vm_state_reply (popen_lines be (count is_Popen (trace c))) = Inr ''running''"
    and "vm_state_reply (popen_lines be (count is_Popen (trace c) + 1)) = Inr ''stopping''"
    and "vm_state_reply (popen_lines be (count is_Popen (trace c) + 2)) = Inr st"
    and "st = ''poweroff'' \<or> st = ''aborted''"
    and "2 \<le> fuel"
  shows "destroy fuel be c =
     (if call_status be (count is_Call (trace c) + 1) = 0 then Returned
      else Raised (Exception ''unable to unregister VirtualBox VM''),
      c\<lparr>trace := trace c @
         [Log ''destroying VirtualBox VM...'',
          Popen [''VBoxManage'', ''showvminfo'', ''--machinereadable'', v]
                (popen_lines be (count is_Popen (trace c))),
          Call [''VBoxManage'', ''controlvm'', v, ''poweroff''] (call_status be (count is_Call (trace c))),
          Popen [''VBoxManage'', ''showvminfo'', ''--machinereadable'', v]
                (popen_lines be (count is_Popen (trace c) + 1)),
          Sleep 1,
          Popen [''VBoxManage'', ''showvminfo'', ''--machinereadable'', v]
                (popen_lines be (count is_Popen (trace c) + 2)),
          Sleep 1,
          Call [''VBoxManage'', ''unregistervm'', ''--delete'', v]
               (call_status be (count is_Call (trace c) + 1))]\<rparr>)"
proof -
  obtain k where fuel: "fuel = Suc (Suc k)"
    using assms(6) by (metis Suc_le_D numeral_2_eq_2 Suc_le_mono le_0_eq not0_implies_Suc)
  show ?thesis
    using assms(1-5)
    by (auto simp: destroy_def fuel power_off_if_running_def unregister_vm_def get_vm_state_eq
        subprocess_call_def and_then_simps lit_def emit_def log_def sleep_def Let_def)
qed

theorem destroy_convergence_witness:
  "vm_id (self (ex_conf ex_provisioned)) = Some ''charon-u1-web''
   \<and> vm_state_reply (popen_lines ex_shutting_down (count is_Popen (trace (ex_conf ex_provisioned))))
       = Inr ''running''
   \<and> vm_state_reply (popen_lines ex_shutting_down (count is_Popen (trace (ex_conf ex_provisioned)) + 1))
       = Inr ''stopping''
   \<and> vm_state_reply (popen_lines ex_shutting_down (count is_Popen (trace (ex_conf ex_provisioned)) + 2))
       = Inr ''poweroff''
   \<and> (2::nat) \<le> 2
   \<and> fst (destroy 2 ex_shutting_down (ex_conf ex_provisioned)) = Returned
   \<and> filter is_Call (trace (snd (destroy 2 ex_shutting_down (ex_conf ex_provisioned))))
       = [Call [''VBoxManage'', ''controlvm'', ''charon-u1-web'', ''poweroff''] 0,
          Call [''VBoxManage'', ''unregistervm'', ''--delete'', ''charon-u1-web''] 0]"
  using destroy_convergence
    [of "ex_conf ex_provisioned" "''charon-u1-web''" ex_shutting_down "''poweroff''" 2]
  by (simp add: example_defs vm_state_reply_def split_eq_def)

section \<open>Re-validation with check\<close>

text \<open>One poll of the address fact, in terms of the reply it gets.\<close>

lemma check_output_poll:
  assumes "vm_id (self c) = Some v"
  shows "check_output be
       (lit [''VBoxManage'', ''guestproperty'', ''get''] @ [vm_id (self c)]
        @ lit [''/VirtualBox/GuestInfo/Net/1/V4/IP'']) c
     = (if fst (check_output_reply be (count is_CheckOutput (trace c))) \<noteq> 0
        then Inl CalledProcessError
        else Inr (snd (check_output_reply be (count is_CheckOutput (trace c)))),
        emit (poll be v (count is_CheckOutput (trace c))) c)"
  using assms
  by (cases "check_output_reply be (count is_CheckOutput (trace c))")
     (simp add: check_output_def lit_def poll_def ip_argv_def)

lemma wait_for_ip_Suc:
  assumes "vm_id (self c) = Some v"
  shows "wait_for_ip (Suc n) be c
     = (if fst (check_output_reply be (count is_CheckOutput (trace c))) \<noteq> 0
        then (Raised (Exception ''unable to get IP address of VirtualBox VM''),
              emit (poll be v (count is_CheckOutput (trace c))) c)
        else if take 7 (rstrip (snd (check_output_reply be (count is_CheckOutput (trace c)))))
                  = ''Value: ''
        then (Returned,
              write_state (known_hosts_remove
                 (drop 7 (rstrip (snd (check_output_reply be (count is_CheckOutput (trace c))))))
                 ((emit (poll be v (count is_CheckOutput (trace c))) c)
                    \<lparr>self := (self c)
                       \<lparr>ipv4 := Some (drop 7 (rstrip (snd (check_output_reply be
                                                   (count is_CheckOutput (trace c))))))\<rparr>\<rparr>)))
        else wait_for_ip n be (sleep 1 (emit (poll be v (count is_CheckOutput (trace c))) c)))"
  by (simp only: wait_for_ip.simps check_output_poll [OF assms]) (simp add: Let_def)

lemma wait_for_ip_waits:
  assumes "vm_id (self c) = Some v" and "\<forall>i<n. no_address_yet be (count is_CheckOutput (trace c) + i)"
  shows "wait_for_ip (n + m) be c
     = wait_for_ip m be (c\<lparr>trace := trace c @ waiting be v (count is_CheckOutput (trace c)) n\<rparr>)"
  using assms
proof (induction n arbitrary: c)
  case 0
  then show ?case by simp
next
  case (Suc n)
  define k where "k = count is_CheckOutput (trace c)"
  define c1 where "c1 = sleep 1 (emit (poll be v k) c)"
  have nay: "no_address_yet be k"
    using Suc.prems(2) by (auto simp: k_def dest: spec [of _ 0])
  have step: "wait_for_ip (Suc (n + m)) be c = wait_for_ip (n + m) be c1"
    using nay Suc.prems(1)
    by (simp add: wait_for_ip_Suc k_def [symmetric] no_address_yet_def c1_def
        del: wait_for_ip.simps)
  have k1: "count is_CheckOutput (trace c1) = Suc k"
    by (simp add: c1_def poll_def k_def)
  have v1: "vm_id (self c1) = Some v" using Suc.prems(1) by (simp add: c1_def)
  have "\<forall>i<n. no_address_yet be (count is_CheckOutput (trace c1) + i)"
  proof (intro allI impI)
    fix i assume "i < n"
    then have "Suc i < Suc n" by simp
    then have "no_address_yet be (count is_CheckOutput (trace c) + Suc i)"
      using Suc.prems(2) by blast
    then show "no_address_yet be (count is_CheckOutput (trace c1) + i)"
      by (simp add: k1 k_def)
  qed
  from Suc.IH [OF v1 this]
  have "wait_for_ip (n + m) be c1
      = wait_for_ip m be (c1\<lparr>trace := trace c1 @ waiting be v (Suc k) n\<rparr>)"
    by (simp add: k1)
  moreover have "c1\<lparr>trace := trace c1 @ waiting be v (Suc k) n\<rparr>
      = c\<lparr>trace := trace c @ waiting be v k (Suc n)\<rparr>"
    by (simp add: c1_def emit_def sleep_def)
  ultimately show ?case using step by (simp add: k_def)
qed

lemma wait_for_ip_out_of_fuel:
  assumes "vm_id (self c) = Some v" and "\<forall>i<n. no_address_yet be (count is_CheckOutput (trace c) + i)"
  shows "wait_for_ip n be c
     = (OutOfFuel, c\<lparr>trace := trace c @ waiting be v (count is_CheckOutput (trace c)) n\<rparr>)"
  using wait_for_ip_waits [OF assms, of 0] by simp

lemma count_waiting [simp]: "count is_CheckOutput (waiting be v k n) = n"
  by (induction n arbitrary: k) (simp_all add: poll_def)

lemma wait_for_ip_publishes:
  assumes "vm_id (self c) = Some v" and "\<forall>i<n. no_address_yet be (count is_CheckOutput (trace c) + i)"
    and "published be (count is_CheckOutput (trace c) + n) = Some addr" and "n < fuel"
  shows "wait_for_ip fuel be c
     = (Returned,
        c\<lparr>self := (self c)\<lparr>ipv4 := Some addr\<rparr>,
          trace := trace c @ waiting be v (count is_CheckOutput (trace c)) n
                   @ [poll be v (count is_CheckOutput (trace c) + n), KnownHostsRemove addr,
                      Write ((self c)\<lparr>ipv4 := Some addr\<rparr>)],
          store := (self c)\<lparr>ipv4 := Some addr\<rparr>\<rparr>)"
proof -
  define k where "k = count is_CheckOutput (trace c)"
  obtain m where fuel: "fuel = n + Suc m"
    using assms(4) by (auto dest: less_imp_Suc_add)
  define c1 where "c1 = c\<lparr>trace := trace c @ waiting be v k n\<rparr>"
  have w: "wait_for_ip fuel be c = wait_for_ip (Suc m) be c1"
    unfolding fuel c1_def k_def by (rule wait_for_ip_waits [OF assms(1,2)])
  have k1: "count is_CheckOutput (trace c1) = k + n" by (simp add: c1_def k_def)
  have v1: "vm_id (self c1) = Some v" using assms(1) by (simp add: c1_def)
  have pub: "fst (check_output_reply be (k + n)) = 0"
    "take 7 (rstrip (snd (check_output_reply be (k + n)))) = ''Value: ''"
    "drop 7 (rstrip (snd (check_output_reply be (k + n)))) = addr"
    using assms(3) by (auto simp: published_def k_def split: if_splits)
  have "wait_for_ip (Suc m) be c1
      = (Returned, write_state (known_hosts_remove addr
           ((emit (poll be v (k + n)) c1)\<lparr>self := (self c1)\<lparr>ipv4 := Some addr\<rparr>\<rparr>)))"
    using pub by (simp add: wait_for_ip_Suc [OF v1] k1 del: wait_for_ip.simps)
  then show ?thesis
    using w by (simp add: c1_def k_def write_state_def known_hosts_remove_def emit_def)
qed

lemma wait_for_ip_fails:
  assumes "vm_id (self c) = Some v" and "\<forall>i<n. no_address_yet be (count is_CheckOutput (trace c) + i)"
    and "fst (check_output_reply be (count is_CheckOutput (trace c) + n)) \<noteq> 0" and "n < fuel"
  shows "wait_for_ip fuel be c
     = (Raised (Exception ''unable to get IP address of VirtualBox VM''),
        c\<lparr>trace := trace c @ waiting be v (count is_CheckOutput (trace c)) n
                   @ [poll be v (count is_CheckOutput (trace c) + n)]\<rparr>)"
proof -
  define k where "k = count is_CheckOutput (trace c)"
  obtain m where fuel: "fuel = n + Suc m"
    using assms(4) by (auto dest: less_imp_Suc_add)
  define c1 where "c1 = c\<lparr>trace := trace c @ waiting be v k n\<rparr>"
  have w: "wait_for_ip fuel be c = wait_for_ip (Suc m) be c1"
    unfolding fuel c1_def k_def by (rule wait_for_ip_waits [OF assms(1,2)])
  have k1: "count is_CheckOutput (trace c1) = k + n" by (simp add: c1_def k_def)
  have v1: "vm_id (self c1) = Some v" using assms(1) by (simp add: c1_def)
  have "wait_for_ip (Suc m) be c1
      = (Raised (Exception ''unable to get IP address of VirtualBox VM''), emit (poll be v (k + n)) c1)"
    using assms(3) by (simp add: wait_for_ip_Suc [OF v1] k1 k_def [symmetric] del: wait_for_ip.simps)
  then show ?thesis
    using w by (simp add: c1_def k_def emit_def)
qed

lemma wait_for_ip_first_poll:
  assumes "vm_id (self c) = Some v" and "wait_for_ip (Suc n) be c = (r, c')"
  shows "\<exists>rest. trace c' = trace c @ poll be v (count is_CheckOutput (trace c)) # rest"
proof -
  define c1 where "c1 = emit (poll be v (count is_CheckOutput (trace c))) c"
  have "appends (\<lambda>e. \<not> is_Call e) c1 (r, c')"
  proof (cases "fst (check_output_reply be (count is_CheckOutput (trace c))) \<noteq> 0")
    case True
    then show ?thesis
      using assms(2) by (simp add: wait_for_ip_Suc [OF assms(1)] c1_def appends_refl
          del: wait_for_ip.simps)
  next
    case False
    show ?thesis
    proof (cases "take 7 (rstrip (snd (check_output_reply be (count is_CheckOutput (trace c)))))
                    = ''Value: ''")
      case True
      then show ?thesis
        using assms(2) False
        by (auto simp: wait_for_ip_Suc [OF assms(1)] c1_def appends_def simp del: wait_for_ip.simps)
    next
      case nf: False
      have "wait_for_ip n be (sleep 1 c1) = (r, c')"
        using assms(2) False nf
        by (simp add: wait_for_ip_Suc [OF assms(1)] c1_def del: wait_for_ip.simps)
      then have "appends (\<lambda>e. \<not> is_Call e) (sleep 1 c1) (r, c')"
        using wait_for_ip_appends [of "sleep 1 c1" n be] by simp
      then show ?thesis by (auto simp: appends_def)
    qed
  qed
  then obtain evs where "trace c' = trace c1 @ evs" by (auto simp: appends_def)
  then show ?thesis by (simp add: c1_def)
qed

text \<open>
  C5. Take a provisioned record with \<open>started = True\<close> and a backend that reports
  a state other than \<^verbatim>\<open>running\<close>. Then \<open>create\<close> with \<open>check = True\<close> queries
  the state, logs, writes the record with \<open>started = False\<close>, and runs the start
  block again from its first command (\<^verbatim>\<open>modifyvm\<close>, the two guest facts,
  \<^verbatim>\<open>startvm\<close>, the write of \<open>started = True\<close>), as far as the commands succeed.
  When a command failed, \<open>create\<close> raises there and the durable record keeps
  \<open>started = False\<close>. When the block completed, address discovery runs again,
  whatever address the record holds: it polls \<^verbatim>\<open>guestproperty get\<close> for the
  address fact of this machine, sleeping a second after each reply without an
  address. At the first reply that publishes an address, that address replaces
  the one in the record, its trust record is invalidated, the record is written,
  and \<open>create\<close> returns. At a reply with a nonzero status \<open>create\<close> raises and the
  durable record is the one written by the start block. While every reply is
  without an address the loop goes on.
\<close>

theorem create_check_restarts:
  assumes "vm_id (self c) = Some v" and "v \<noteq> []" and "truthy (disk (self c))"
    and "disk_attached (self c)" and "truthy (client_private_key (self c))"
    and "client_public_key (self c) = Some key" and "started (self c)"
    and "vm_state_reply (popen_lines be (count is_Popen (trace c))) = Inr st" and "st \<noteq> ''running''"
    and "create fuel be m defn True c = (r, c')"
  shows "\<exists>j rest. 1 \<le> j \<and> j \<le> 5
     \<and> trace c' = trace c @
         [Popen [''VBoxManage'', ''showvminfo'', ''--machinereadable'', v]
                (popen_lines be (count is_Popen (trace c))),
          Log ''VirtualBox VM went down, restarting...'',
          Write ((self c)\<lparr>started := False\<rparr>)]
         @ take j (start_events be defn (count is_Call (trace c)) v key ((self c)\<lparr>started := False\<rparr>))
         @ rest
     \<and> list_all (\<lambda>e. \<not> failed e)
           (take (j - 1) (start_events be defn (count is_Call (trace c)) v key ((self c)\<lparr>started := False\<rparr>)))
     \<and> (if j = 5
         then (0 < fuel \<longrightarrow> rest \<noteq> [] \<and> is_CheckOutput (hd rest)
                 \<and> hd rest = poll be v (count is_CheckOutput (trace c)))
            \<and> (\<forall>n addr. n < fuel
                  \<and> (\<forall>i<n. no_address_yet be (count is_CheckOutput (trace c) + i))
                  \<and> published be (count is_CheckOutput (trace c) + n) = Some addr \<longrightarrow>
                  r = Returned
                  \<and> rest = waiting be v (count is_CheckOutput (trace c)) n
                           @ [poll be v (count is_CheckOutput (trace c) + n), KnownHostsRemove addr,
                              Write ((self c)\<lparr>ipv4 := Some addr\<rparr>)]
                  \<and> self c' = (self c)\<lparr>ipv4 := Some addr\<rparr> \<and> store c' = self c')
            \<and> (\<forall>n. n < fuel
                  \<and> (\<forall>i<n. no_address_yet be (count is_CheckOutput (trace c) + i))
                  \<and> fst (check_output_reply be (count is_CheckOutput (trace c) + n)) \<noteq> 0 \<longrightarrow>
                  r = Raised (Exception ''unable to get IP address of VirtualBox VM'')
                  \<and> rest = waiting be v (count is_CheckOutput (trace c)) n
                           @ [poll be v (count is_CheckOutput (trace c) + n)]
                  \<and> self c' = self c \<and> store c' = self c)
            \<and> ((\<forall>i<fuel. no_address_yet be (count is_CheckOutput (trace c) + i)) \<longrightarrow>
                  r = OutOfFuel \<and> rest = waiting be v (count is_CheckOutput (trace c)) fuel
                  \<and> self c' = self c \<and> store c' = self c)
         else rest = [] \<and> (\<exists>msg. r = Raised (Exception msg))
              \<and> failed (start_events be defn (count is_Call (trace c)) v key
                          ((self c)\<lparr>started := False\<rparr>) ! (j - 1))
              \<and> store c' = (self c)\<lparr>started := False\<rparr>)"
proof -
  define s0 where "s0 = (self c)\<lparr>started := False\<rparr>"
  define k where "k = count is_CheckOutput (trace c)"
  define c1 where "c1 = write_state ((log ''VirtualBox VM went down, restarting...''
      (emit (Popen [''VBoxManage'', ''showvminfo'', ''--machinereadable'', v]
                (popen_lines be (count is_Popen (trace c)))) c))\<lparr>self := s0\<rparr>)"
  define L where "L = start_events be defn (count is_Call (trace c)) v key s0"
  have chk: "check_running be True c = (Returned, c1)"
    using assms(1,8,9) by (simp add: check_running_def get_vm_state_eq c1_def s0_def)
  have c1: "self c1 = s0" "store c1 = s0" "count is_Call (trace c1) = count is_Call (trace c)"
    "trace c1 = trace c @
         [Popen [''VBoxManage'', ''showvminfo'', ''--machinereadable'', v]
                (popen_lines be (count is_Popen (trace c))),
          Log ''VirtualBox VM went down, restarting...'', Write s0]"
    by (simp_all add: c1_def)
  have skip: "create fuel be m defn True c =
      and_then (start_step be defn c1) (discover_ip fuel be True)"
    using assms(1-5) chk c1(1)
    by (simp add: create_def create_vm_def clone_disk_def attach_disk_def ensure_key_pair_def
        truthy_def and_then_simps s0_def)
  obtain r1 c2 where ss: "start_step be defn c1 = (r1, c2)"
    by (cases "start_step be defn c1")
  have "\<not> started (self c1)" "vm_id (self c1) = Some v" "client_public_key (self c1) = Some key"
    using assms(1,6) by (simp_all add: c1(1) s0_def)
  from start_step_trace [OF this ss] obtain j where
    j: "1 \<le> j" "j \<le> 5" "trace c2 = trace c1 @ take j L"
      "list_all (\<lambda>e. \<not> failed e) (take (j - 1) L)"
      "if j = 5 then r1 = Returned \<and> self c2 = (self c1)\<lparr>started := True\<rparr> \<and> store c2 = self c2
       else (\<exists>msg. r1 = Raised (Exception msg)) \<and> failed (L ! (j - 1))
            \<and> self c2 = self c1 \<and> store c2 = store c1"
    unfolding L_def c1(1) c1(3) by blast
  show ?thesis
  proof (cases "j = 5")
    case False
    then obtain msg where r1: "r1 = Raised (Exception msg)" and f: "failed (L ! (j - 1))"
      and st: "store c2 = store c1"
      using j(5) by auto
    have "(r, c') = (r1, c2)"
      using assms(10) skip ss r1 by (simp add: and_then_simps)
    then show ?thesis
      using False j(1-4) f st r1
      by (intro exI [of _ j] exI [of _ "[]"]) (simp add: c1 L_def s0_def)
  next
    case True
    have s2: "self c2 = self c" "store c2 = self c"
      using j(5) True assms(7) by (simp_all add: c1(1) s0_def)
    have r1: "r1 = Returned" using j(5) True by simp
    have v2: "vm_id (self c2) = Some v" using assms(1) by (simp add: s2)
    have k2: "count is_CheckOutput (trace c2) = k"
      using j(3) True by (simp add: c1(4) L_def start_events_def k_def)
    have w: "wait_for_ip fuel be c2 = (r, c')"
      using assms(10) skip ss r1 by (simp add: and_then_simps discover_ip_def)
    define rest where "rest = drop (length (trace c2)) (trace c')"
    have "appends (\<lambda>e. \<not> is_Call e) c2 (r, c')"
      using wait_for_ip_appends [of c2 fuel be] w by simp
    then have tr: "trace c' = trace c2 @ rest"
      by (auto simp: appends_def rest_def)
    have first: "0 < fuel \<longrightarrow> rest \<noteq> [] \<and> is_CheckOutput (hd rest) \<and> hd rest = poll be v k"
    proof
      assume "0 < fuel"
      then obtain n where "fuel = Suc n" by (cases fuel) auto
      then obtain rest' where "trace c' = trace c2 @ poll be v k # rest'"
        using wait_for_ip_first_poll [OF v2, of n be r c'] w k2 by auto
      then have "rest = poll be v k # rest'" using tr by simp
      then show "rest \<noteq> [] \<and> is_CheckOutput (hd rest) \<and> hd rest = poll be v k"
        by (simp add: poll_def)
    qed
    have found: "r = Returned
        \<and> rest = waiting be v k n @ [poll be v (k + n), KnownHostsRemove addr,
                                      Write ((self c)\<lparr>ipv4 := Some addr\<rparr>)]
        \<and> self c' = (self c)\<lparr>ipv4 := Some addr\<rparr> \<and> store c' = self c'"
      if "n < fuel" "\<forall>i<n. no_address_yet be (k + i)" "published be (k + n) = Some addr"
      for n addr
    proof -
      have "wait_for_ip fuel be c2
         = (Returned,
            c2\<lparr>self := (self c2)\<lparr>ipv4 := Some addr\<rparr>,
               trace := trace c2 @ waiting be v (count is_CheckOutput (trace c2)) n
                   @ [poll be v (count is_CheckOutput (trace c2) + n), KnownHostsRemove addr,
                      Write ((self c2)\<lparr>ipv4 := Some addr\<rparr>)],
               store := (self c2)\<lparr>ipv4 := Some addr\<rparr>\<rparr>)"
        using that by (intro wait_for_ip_publishes [OF v2]) (simp_all add: k2)
      then show ?thesis using w tr by (auto simp: k2 s2)
    qed
    have failing: "r = Raised (Exception ''unable to get IP address of VirtualBox VM'')
        \<and> rest = waiting be v k n @ [poll be v (k + n)] \<and> self c' = self c \<and> store c' = self c"
      if "n < fuel" "\<forall>i<n. no_address_yet be (k + i)" "fst (check_output_reply be (k + n)) \<noteq> 0"
      for n
    proof -
      have "wait_for_ip fuel be c2
         = (Raised (Exception ''unable to get IP address of VirtualBox VM''),
            c2\<lparr>trace := trace c2 @ waiting be v (count is_CheckOutput (trace c2)) n
                   @ [poll be v (count is_CheckOutput (trace c2) + n)]\<rparr>)"
        using that by (intro wait_for_ip_fails [OF v2]) (simp_all add: k2)
      then show ?thesis using w tr by (auto simp: k2 s2)
    qed
    have looping: "r = OutOfFuel \<and> rest = waiting be v k fuel \<and> self c' = self c \<and> store c' = self c"
      if "\<forall>i<fuel. no_address_yet be (k + i)"
    proof -
      have "wait_for_ip fuel be c2
         = (OutOfFuel, c2\<lparr>trace := trace c2 @ waiting be v (count is_CheckOutput (trace c2)) fuel\<rparr>)"
        using that by (intro wait_for_ip_out_of_fuel [OF v2]) (simp_all add: k2)
      then show ?thesis using w tr by (auto simp: k2 s2)
    qed
    have t: "trace c' = trace c @
         [Popen [''VBoxManage'', ''showvminfo'', ''--machinereadable'', v]
                (popen_lines be (count is_Popen (trace c))),
          Log ''VirtualBox VM went down, restarting...'',
          Write ((self c)\<lparr>started := False\<rparr>)]
         @ take j (start_events be defn (count is_Call (trace c)) v key ((self c)\<lparr>started := False\<rparr>))
         @ rest"
      using tr j(3) by (simp add: c1(4) L_def s0_def)
    have l: "list_all (\<lambda>e. \<not> failed e)
           (take (j - 1) (start_events be defn (count is_Call (trace c)) v key ((self c)\<lparr>started := False\<rparr>)))"
      using j(4) by (simp add: L_def s0_def)
    show ?thesis
      apply (intro exI [of _ j] exI [of _ rest] conjI j(1) j(2) t l)
      apply (simp only: True if_True k_def [symmetric] simp_thms)
      apply (insert first found failing looping)
      apply blast
      done
  qed
qed

theorem create_check_restarts_witness:
  "vm_id (self (ex_conf ex_provisioned)) = Some ''charon-u1-web'' \<and> ''charon-u1-web'' \<noteq> []
   \<and> truthy (disk (self (ex_conf ex_provisioned))) \<and> disk_attached (self (ex_conf ex_provisioned))
   \<and> truthy (client_private_key (self (ex_conf ex_provisioned)))
   \<and> client_public_key (self (ex_conf ex_provisioned)) = Some ''PUBLIC''
   \<and> started (self (ex_conf ex_provisioned))
   \<and> vm_state_reply (popen_lines (ex_backend ''poweroff'')
         (count is_Popen (trace (ex_conf ex_provisioned)))) = Inr ''poweroff''
   \<and> ''poweroff'' \<noteq> ''running''
   \<and> ipv4 (self (ex_conf ex_provisioned)) = Some ''192.168.56.101''
   \<and> no_address_yet (ex_backend ''poweroff'') 0
   \<and> published (ex_backend ''poweroff'') 1 = Some ''192.168.56.102''
   \<and> fst (create 2 (ex_backend ''poweroff'') ex_machine ex_defn True (ex_conf ex_provisioned))
       = Returned
   \<and> trace (snd (create 2 (ex_backend ''poweroff'') ex_machine ex_defn True
                     (ex_conf ex_provisioned)))
       = [Popen [''VBoxManage'', ''showvminfo'', ''--machinereadable'', ''charon-u1-web'']
                [''name=web'', ''VMState='' @ [CHR 0x22] @ ''poweroff'' @ [CHR 0x22]],
          Log ''VirtualBox VM went down, restarting...'',
          Write ex_stopped]
         @ start_events (ex_backend ''poweroff'') ex_defn 0 ''charon-u1-web'' ''PUBLIC'' ex_stopped
         @ [CheckOutput [''VBoxManage'', ''guestproperty'', ''get'', ''charon-u1-web'',
                         ''/VirtualBox/GuestInfo/Net/1/V4/IP''] 0 (''No value set!'' @ [CHR 0x0A]),
            Sleep 1,
            CheckOutput [''VBoxManage'', ''guestproperty'', ''get'', ''charon-u1-web'',
                         ''/VirtualBox/GuestInfo/Net/1/V4/IP''] 0
                        (''Value: 192.168.56.102'' @ [CHR 0x0A]),
            KnownHostsRemove ''192.168.56.102'',
            Write (ex_provisioned\<lparr>ipv4 := Some ''192.168.56.102''\<rparr>)]
   \<and> self (snd (create 2 (ex_backend ''poweroff'') ex_machine ex_defn True (ex_conf ex_provisioned)))
       = ex_provisioned\<lparr>ipv4 := Some ''192.168.56.102''\<rparr>
   \<and> store (snd (create 2 (ex_backend ''poweroff'') ex_machine ex_defn True (ex_conf ex_provisioned)))
       = ex_provisioned\<lparr>ipv4 := Some ''192.168.56.102''\<rparr>"
  using create_check_restarts
    [of "ex_conf ex_provisioned" "''charon-u1-web''" "''PUBLIC''" "ex_backend ''poweroff''"
        "''poweroff''" 2 ex_machine ex_defn
        "fst (create 2 (ex_backend ''poweroff'') ex_machine ex_defn True (ex_conf ex_provisioned))"
        "snd (create 2 (ex_backend ''poweroff'') ex_machine ex_defn True (ex_conf ex_provisioned))"]
  by (simp add: model_defs example_defs lit_def vm_state_reply_def start_events_def
      no_address_yet_def published_def
      eval_nat_numeral emit_def write_state_def sleep_def known_hosts_remove_def log_def)


section \<open>start\<close>

text \<open>What \<open>u_start\<close> adds when it is asked for a window.\<close>

lemma u_start_windowed:
  assumes "u_start be False c = (r, c')"
  shows "\<exists>evs. trace c' = trace c @ evs
     \<and> (\<forall>a st. Call a st \<in> set evs \<and> subcommand a = ''startvm'' \<longrightarrow>
            map Some a = [Some ''VBoxManage'', Some ''startvm'', vm_id (self c)])
     \<and> (\<forall>v key. vm_id (self c) = Some v \<and> client_public_key (self c) = Some key
            \<and> call_status be (count is_Call (trace c)) = 0
            \<and> call_status be (count is_Call (trace c) + 1) = 0 \<longrightarrow>
            Call [''VBoxManage'', ''startvm'', v] (call_status be (count is_Call (trace c) + 2))
              \<in> set evs)"
proof (cases "vm_id (self c)")
  case None
  then have "c' = c" using assms by (simp add: u_start_def subprocess_call_def lit_def)
  then show ?thesis using None by (intro exI [of _ "[]"]) simp
next
  case (Some v)
  define n where "n = count is_Call (trace c)"
  define e1 where "e1 = Call [''VBoxManage'', ''guestproperty'', ''set'', v,
                              ''/VirtualBox/GuestInfo/Net/1/V4/IP'', []] (call_status be n)"
  show ?thesis
  proof (cases "call_status be n = 0")
    case False
    then have "c' = emit e1 c"
      using assms Some by (auto simp: u_start_def subprocess_call_def lit_def Let_def e1_def n_def)
    then show ?thesis using False by (intro exI [of _ "[e1]"]) (simp add: e1_def n_def)
  next
    case s1: True
    show ?thesis
    proof (cases "client_public_key (self c)")
      case None
      then have "c' = emit e1 c"
        using assms Some s1
        by (auto simp: u_start_def subprocess_call_def lit_def Let_def e1_def n_def)
      then show ?thesis using None by (intro exI [of _ "[e1]"]) (simp add: e1_def n_def)
    next
      case key: (Some key)
      define e2 where "e2 = Call [''VBoxManage'', ''guestproperty'', ''set'', v,
                                  ''/VirtualBox/GuestInfo/Charon/ClientPublicKey'', key]
                                 (call_status be (n + 1))"
      define e3 where "e3 = Call [''VBoxManage'', ''startvm'', v] (call_status be (n + 2))"
      show ?thesis
      proof (cases "call_status be (n + 1) = 0")
        case False
        then have "c' = emit e2 (emit e1 c)"
          using assms Some s1 key
          by (auto simp: u_start_def subprocess_call_def lit_def Let_def e1_def e2_def n_def)
        then show ?thesis
          using False by (intro exI [of _ "[e1, e2]"]) (auto simp: e1_def e2_def n_def)
      next
        case s2: True
        have "trace c' = trace c @ [e1, e2, e3]
              \<or> trace c' = trace c @ [e1, e2, e3, Write ((self c)\<lparr>started := True\<rparr>)]"
          using assms Some s1 s2 key
          by (auto simp: u_start_def subprocess_call_def lit_def Let_def e1_def e2_def e3_def n_def
              eval_nat_numeral split: if_splits)
        then show ?thesis
        proof
          assume "trace c' = trace c @ [e1, e2, e3]"
          then show ?thesis
            using Some by (intro exI [of _ "[e1, e2, e3]"]) (auto simp: e1_def e2_def e3_def n_def)
        next
          assume "trace c' = trace c @ [e1, e2, e3, Write ((self c)\<lparr>started := True\<rparr>)]"
          then show ?thesis
            using Some
            by (intro exI [of _ "[e1, e2, e3, Write ((self c)\<lparr>started := True\<rparr>)]"])
               (auto simp: e1_def e2_def e3_def n_def)
        qed
      qed
    qed
  qed
qed

text \<open>
  C10. \<open>start\<close> has no access to a definition. Every \<^verbatim>\<open>startvm\<close> command it
  issues has exactly the words \<^verbatim>\<open>VBoxManage startvm <id>\<close>, without
  \<^verbatim>\<open>--type headless\<close>; and it does issue that command whenever the machine is
  reported in a state other than \<^verbatim>\<open>running\<close> and the two guest facts were set.
  (The start block of \<open>create\<close> adds \<^verbatim>\<open>--type headless\<close> when the definition
  asks for it, see \<open>start_events\<close>.)
\<close>

theorem start_never_headless:
  assumes "start fuel be c = (r, c')"
  shows "\<exists>evs. trace c' = trace c @ evs
     \<and> (\<forall>a st. Call a st \<in> set evs \<and> subcommand a = ''startvm'' \<longrightarrow>
            map Some a = [Some ''VBoxManage'', Some ''startvm'', vm_id (self c)])
     \<and> (\<forall>v key st. vm_id (self c) = Some v \<and> client_public_key (self c) = Some key
            \<and> vm_state_reply (popen_lines be (count is_Popen (trace c))) = Inr st
            \<and> st \<noteq> ''running''
            \<and> call_status be (count is_Call (trace c)) = 0
            \<and> call_status be (count is_Call (trace c) + 1) = 0 \<longrightarrow>
            Call [''VBoxManage'', ''startvm'', v] (call_status be (count is_Call (trace c) + 2))
              \<in> set evs)"
proof -
  obtain r0 c1 where g: "get_vm_state be c = (r0, c1)" by (cases "get_vm_state be c")
  note q = get_vm_state_query [OF g]
  from q obtain evs0 where e0: "trace c1 = trace c @ evs0" "list_all (\<lambda>e. \<not> is_Call e) evs0"
    by (auto simp: appends_def)
  have k: "self c1 = self c" "count is_Call (trace c1) = count is_Call (trace c)"
    using q by auto
  show ?thesis
  proof (cases "\<exists>st. r0 = Inr st \<and> st \<noteq> ''running''")
    case False
    then have "c' = c1"
      using assms g by (cases r0) (auto simp: start_def split: if_splits)
    moreover have "\<And>v. vm_id (self c) = Some v \<Longrightarrow>
        r0 = vm_state_reply (popen_lines be (count is_Popen (trace c)))"
      using g by (simp add: get_vm_state_eq)
    ultimately show ?thesis
      using e0 False by (intro exI [of _ evs0]) (auto simp: list_all_iff)
  next
    case True
    then obtain st where st: "r0 = Inr st" "st \<noteq> ''running''" by blast
    define c2 where "c2 = log ''restarting...'' c1"
    have k2: "self c2 = self c" "count is_Call (trace c2) = count is_Call (trace c)"
      "trace c2 = trace c @ evs0 @ [Log ''restarting...'']"
      using k e0 by (simp_all add: c2_def)
    obtain r3 c3 where us: "u_start be False c2 = (r3, c3)" by (cases "u_start be False c2")
    from u_start_windowed [OF us] obtain evs1 where e1: "trace c3 = trace c2 @ evs1"
      "\<forall>a st. Call a st \<in> set evs1 \<and> subcommand a = ''startvm'' \<longrightarrow>
            map Some a = [Some ''VBoxManage'', Some ''startvm'', vm_id (self c)]"
      "\<forall>v key. vm_id (self c) = Some v \<and> client_public_key (self c) = Some key
            \<and> call_status be (count is_Call (trace c)) = 0
            \<and> call_status be (count is_Call (trace c) + 1) = 0 \<longrightarrow>
            Call [''VBoxManage'', ''startvm'', v] (call_status be (count is_Call (trace c) + 2))
              \<in> set evs1"
      unfolding k2(1) k2(2) by blast
    obtain r4 c4 where w: "and_then (u_start be False c2) (wait_for_ip fuel be) = (r4, c4)"
      by (cases "and_then (u_start be False c2) (wait_for_ip fuel be)")
    have "appends (\<lambda>e. \<not> is_Call e) c3 (r4, c4)"
    proof (cases r3)
      case Returned
      then show ?thesis
        using w us wait_for_ip_appends [of c3 fuel be] by (simp add: and_then_simps)
    qed (use w us in \<open>auto simp: and_then_simps appends_refl\<close>)
    then obtain evs2 where e2: "trace c4 = trace c3 @ evs2" "list_all (\<lambda>e. \<not> is_Call e) evs2"
      by (auto simp: appends_def)
    have "\<exists>evs3. trace c' = trace c4 @ evs3 \<and> list_all (\<lambda>e. \<not> is_Call e) evs3"
    proof (cases r4)
      case Returned
      then have "c' = c4 \<or> c' = warn ''IP address has changed, you may need to run charon deploy'' c4"
        using assms g st w by (auto simp: start_def Let_def c2_def split: if_splits)
      then show ?thesis by (auto simp: warn_def)
    next
      case (Raised e)
      then have "c' = c4" using assms g st w by (auto simp: start_def Let_def c2_def)
      then show ?thesis by simp
    next
      case OutOfFuel
      then have "c' = c4" using assms g st w by (auto simp: start_def Let_def c2_def)
      then show ?thesis by simp
    qed
    then obtain evs3 where e3: "trace c' = trace c4 @ evs3" "list_all (\<lambda>e. \<not> is_Call e) evs3"
      by blast
    have nc: "\<And>a s. Call a s \<notin> set evs0 \<and> Call a s \<notin> set evs2 \<and> Call a s \<notin> set evs3"
      using e0(2) e2(2) e3(2) by (auto simp: list_all_iff)
    show ?thesis
      using e1 e2(1) e3(1) k2(3) nc
      by (intro exI [of _ "evs0 @ [Log ''restarting...''] @ evs1 @ evs2 @ evs3"]) auto
  qed
qed

theorem start_never_headless_witness:
  "headless ex_defn
   \<and> fst (start 2 (ex_backend ''poweroff'') (ex_conf ex_provisioned)) = Returned
   \<and> filter (is_cmd ''startvm'')
        (trace (snd (start 2 (ex_backend ''poweroff'') (ex_conf ex_provisioned))))
       = [Call [''VBoxManage'', ''startvm'', ''charon-u1-web''] 0]"
  using start_never_headless
    [of 2 "ex_backend ''poweroff''" "ex_conf ex_provisioned"
        "fst (start 2 (ex_backend ''poweroff'') (ex_conf ex_provisioned))"
        "snd (start 2 (ex_backend ''poweroff'') (ex_conf ex_provisioned))"]
  by (simp add: model_defs example_defs lit_def eval_nat_numeral emit_def write_state_def
      sleep_def known_hosts_remove_def log_def)

section \<open>Two calls of create in a row\<close>

lemma and_then_Returned:
  assumes "and_then rc g = (Returned, c')"
  obtains c1 where "rc = (Returned, c1)" and "g c1 = (Returned, c')"
  using assms by (cases rc; cases "fst rc") (auto simp: and_then_def)

lemma subprocess_call_self: "subprocess_call be args c = (r, c1) \<Longrightarrow> self c1 = self c"
  by (erule subprocess_call_cases) simp_all

lemma create_vm_sets:
  assumes "create_vm be m c = (Returned, c')"
  shows "truthy (vm_id (self c'))"
  using assms
  by (auto simp: create_vm_def Let_def truthy_def split: if_splits prod.splits sum.splits)

lemma clone_disk_sets:
  assumes "clone_disk be m defn c = (Returned, c')" and "truthy (vm_id (self c))"
  shows "truthy (vm_id (self c')) \<and> truthy (disk (self c'))"
proof (cases "truthy (disk (self c))")
  case True
  then show ?thesis using assms by (simp add: clone_disk_def)
next
  case False
  obtain h v where hv: "home m = Some h" "vm_id (self c) = Some v"
    using assms False by (auto simp: clone_disk_def split: option.splits)
  obtain b c1 where d: "isdir be (h @ ''/VirtualBox VMs/'' @ v) c = (b, c1)"
    by (cases "isdir be (h @ ''/VirtualBox VMs/'' @ v) c")
  obtain r2 c2 where rb: "resolve_base_image be m defn c1 = (r2, c2)"
    by (cases "resolve_base_image be m defn c1")
  have s: "self c2 = self c"
    using query_keeps(1) [OF isdir_query [OF d]] query_keeps(1) [OF resolve_base_image_query [OF rb]]
    by simp
  show ?thesis
    using assms False hv d rb s
    by (auto simp: clone_disk_def Let_def truthy_def dest!: subprocess_call_self
        split: if_splits prod.splits sum.splits bool.splits)
qed

lemma attach_disk_sets:
  assumes "attach_disk be c = (Returned, c')"
  shows "disk_attached (self c') \<and> vm_id (self c') = vm_id (self c) \<and> disk (self c') = disk (self c)"
  using assms
  by (auto simp: attach_disk_def dest!: subprocess_call_self split: if_splits prod.splits sum.splits)

lemma ensure_key_pair_sets:
  assumes "ensure_key_pair be c = (Returned, c')" and "\<And>k. fst (key_pair be k) \<noteq> []"
  shows "truthy (client_private_key (self c')) \<and> vm_id (self c') = vm_id (self c)
       \<and> disk (self c') = disk (self c) \<and> disk_attached (self c') = disk_attached (self c)
       \<and> ipv4 (self c') = ipv4 (self c) \<and> started (self c') = started (self c)"
proof (cases "truthy (client_private_key (self c))")
  case True
  then show ?thesis using assms(1) by (auto simp: ensure_key_pair_def)
next
  case False
  obtain priv pub where kp: "key_pair be (count is_CreateKeyPair (trace c)) = (priv, pub)"
    by (cases "key_pair be (count is_CreateKeyPair (trace c))")
  then have "priv \<noteq> []" using assms(2) [of "count is_CreateKeyPair (trace c)"] by simp
  then show ?thesis
    using assms(1) False kp by (auto simp: ensure_key_pair_def create_key_pair_def truthy_def)
qed

lemma u_start_sets:
  assumes "u_start be h c = (Returned, c')"
  shows "self c' = (self c)\<lparr>started := True\<rparr>"
  using assms
  by (auto simp: u_start_def dest!: subprocess_call_self split: if_splits prod.splits sum.splits)

lemma start_step_sets:
  assumes "start_step be defn c = (Returned, c')"
  shows "self c' = (self c)\<lparr>started := True\<rparr>"
proof (cases "started (self c)")
  case True
  then show ?thesis using assms by (auto simp: start_step_def)
next
  case False
  then show ?thesis
    using assms
    by (auto simp: start_step_def dest!: subprocess_call_self u_start_sets
        split: if_splits prod.splits sum.splits)
qed

lemma discover_ip_sets:
  assumes "discover_ip fuel be False c = (Returned, c')"
  shows "truthy (ipv4 (self c')) \<and> (\<exists>a. self c' = (self c)\<lparr>ipv4 := a\<rparr>)"
proof (cases "truthy (ipv4 (self c))")
  case True
  then have "c' = c" using assms by (simp add: discover_ip_def)
  then show ?thesis using True by (auto intro: exI [of _ "ipv4 (self c)"])
next
  case False
  then have "wait_for_ip fuel be c = (Returned, c')" using assms by (simp add: discover_ip_def)
  from wait_for_ip_found [OF this] show ?thesis by (auto simp: truthy_def)
qed


text \<open>
  A run of \<open>create\<close> that returns leaves every guard satisfied, provided the key
  generator hands out non-empty private keys.
\<close>

lemma create_establishes:
  assumes "create fuel be m defn False c = (Returned, c')" and "\<And>k. fst (key_pair be k) \<noteq> []"
  shows "truthy (vm_id (self c')) \<and> truthy (disk (self c')) \<and> disk_attached (self c')
       \<and> truthy (client_private_key (self c')) \<and> started (self c') \<and> truthy (ipv4 (self c'))"
proof -
  from assms(1) obtain c6 where 7: "discover_ip fuel be False c6 = (Returned, c')"
    and r6: "and_then (and_then (and_then (and_then (and_then
       (create_vm be m c) (clone_disk be m defn)) (attach_disk be)) (check_running be False))
       (ensure_key_pair be)) (start_step be defn) = (Returned, c6)"
    unfolding create_def by (rule and_then_Returned) blast
  from r6 obtain c5 where 6: "start_step be defn c5 = (Returned, c6)"
    and r5: "and_then (and_then (and_then (and_then
       (create_vm be m c) (clone_disk be m defn)) (attach_disk be)) (check_running be False))
       (ensure_key_pair be) = (Returned, c5)"
    by (rule and_then_Returned) blast
  from r5 obtain c4 where 5: "ensure_key_pair be c4 = (Returned, c5)"
    and r4: "and_then (and_then (and_then
       (create_vm be m c) (clone_disk be m defn)) (attach_disk be)) (check_running be False)
       = (Returned, c4)"
    by (rule and_then_Returned) blast
  from r4 obtain c3 where 4: "check_running be False c3 = (Returned, c4)"
    and r3: "and_then (and_then (create_vm be m c) (clone_disk be m defn)) (attach_disk be)
       = (Returned, c3)"
    by (rule and_then_Returned) blast
  from r3 obtain c2 where 3: "attach_disk be c2 = (Returned, c3)"
    and r2: "and_then (create_vm be m c) (clone_disk be m defn) = (Returned, c2)"
    by (rule and_then_Returned) blast
  from r2 obtain c1 where 2: "clone_disk be m defn c1 = (Returned, c2)"
    and 1: "create_vm be m c = (Returned, c1)"
    by (rule and_then_Returned) blast
  have s1: "truthy (vm_id (self c1))" using 1 by (rule create_vm_sets)
  have s2: "truthy (vm_id (self c2)) \<and> truthy (disk (self c2))" using 2 s1 by (rule clone_disk_sets)
  have s3: "truthy (vm_id (self c3)) \<and> truthy (disk (self c3)) \<and> disk_attached (self c3)"
    using attach_disk_sets [OF 3] s2 by simp
  have "c4 = c3" using 4 by (simp add: check_running_def)
  then have s5: "truthy (vm_id (self c5)) \<and> truthy (disk (self c5)) \<and> disk_attached (self c5)
      \<and> truthy (client_private_key (self c5))"
    using ensure_key_pair_sets [OF 5 assms(2)] s3 by simp
  have s6: "truthy (vm_id (self c6)) \<and> truthy (disk (self c6)) \<and> disk_attached (self c6)
      \<and> truthy (client_private_key (self c6)) \<and> started (self c6)"
    using start_step_sets [OF 6] s5 by simp
  from discover_ip_sets [OF 7] obtain a where "truthy (ipv4 (self c'))" "self c' = (self c6)\<lparr>ipv4 := a\<rparr>"
    by blast
  then show ?thesis using s6 by simp
qed

text \<open>Hence a second call right after a first one that returned changes nothing.\<close>

lemma create_twice:
  assumes "create fuel be m defn False c = (Returned, c')" and "\<And>k. fst (key_pair be k) \<noteq> []"
  shows "create fuel' be' m' defn' False c' = (Returned, c')"
  using create_establishes [OF assms] by (intro create_noop) simp_all

end
